theory Spec2Isabelle
  imports Main "HOL-Library.DAList" "HOL-Library.Char_ord"
begin

section \<open>Source model\<close>

text \<open>
  The analyzer of the SolidityDiagram extension (\<^verbatim>\<open>src/analyzer/inheritanceResolver.ts\<close>,
  which holds the classes \<^verbatim>\<open>InheritanceResolver\<close> and \<^verbatim>\<open>DataFlowAnalyzer\<close>) works on the
  records of \<^verbatim>\<open>types.ts\<close>. Only the fields that the analyzer reads are kept (and the flag of a
  using-directive); \<open>startLine\<close> is \<^verbatim>\<open>location.start.line\<close>. A field that
  the source tests for truthiness before use (\<^verbatim>\<open>func.body\<close>, \<^verbatim>\<open>contract.usingDirectives\<close>,
  \<^verbatim>\<open>param.name\<close>) is modelled by its value, the absent value being the empty one: both take
  the same branch of every such test.

  A JavaScript \<^verbatim>\<open>Map\<close> is an association list with distinct keys in insertion order
  (\<^typ>\<open>('k, 'v) alist\<close>): \<^const>\<open>DAList.update\<close> overwrites the value of a present key in
  place and appends an absent one, as \<^verbatim>\<open>Map.prototype.set\<close> does, and iteration follows
  \<^const>\<open>DAList.impl_of\<close>. A \<^verbatim>\<open>Set\<close> of strings is the list of its elements in insertion
  order. Strings are lists of 8-bit characters.
\<close>

datatype ContractKind = Contract | Interface | Library | Abstract

record UsingDirective =
  libraryName :: string
  forType :: string
  isGlobal :: bool

record ParameterInfo =
  p_name :: string
  p_typeName :: string

record FunctionInfo =
  f_name :: string
  parameters :: "ParameterInfo list"
  body :: string
  fullSource :: string
  startLine :: nat

record ContractInfo =
  c_name :: string
  kind :: ContractKind
  baseContracts :: "string list"
  usingDirectives :: "UsingDirective list"
  c_functions :: "FunctionInfo list"
  c_filePath :: string

record ParsedFile =
  contracts :: "ContractInfo list"

record ImplementationInfo =
  contractName :: string
  contractKind :: ContractKind
  functionInfo :: FunctionInfo
  filePath :: string
  isInherited :: bool
  inheritanceChain :: "string list"

definition set_add :: "'a \<Rightarrow> 'a list \<Rightarrow> 'a list" where
  "set_add x xs = (if x \<in> set xs then xs else xs @ [x])"

text \<open>\<^verbatim>\<open>String.prototype.trim\<close>: the white space and line terminators of ECMAScript that
  an 8-bit character can be (TAB, LF, VT, FF, CR, SP, NBSP).\<close>

definition isWhiteSpace :: "char \<Rightarrow> bool" where
  "isWhiteSpace c \<longleftrightarrow> c \<in> set [CHR 0x09, CHR 0x0A, CHR 0x0B, CHR 0x0C, CHR 0x0D, CHR 0x20, CHR 0xA0]"

definition trim :: "string \<Rightarrow> string" where
  "trim s = rev (dropWhile isWhiteSpace (rev (dropWhile isWhiteSpace s)))"

text \<open>\<^verbatim>\<open>func.body && func.body.trim() !== ''\<close>\<close>

definition hasBody :: "FunctionInfo \<Rightarrow> bool" where
  "hasBody func \<longleftrightarrow> body func \<noteq> [] \<and> trim (body func) \<noteq> []"


section \<open>InheritanceResolver\<close>

record Resolver =
  contractMap :: "(string, ContractInfo) alist"
  inheritedBy :: "(string, string list) alist"
  inheritanceChains :: "(string, string list) alist"
  typeToLibraries :: "(string, string list) alist"
  contractUsingDirectives :: "(string, UsingDirective list) alist"

definition cleared :: Resolver where
  "cleared = \<lparr>contractMap = DAList.empty, inheritedBy = DAList.empty,
     inheritanceChains = DAList.empty, typeToLibraries = DAList.empty,
     contractUsingDirectives = DAList.empty\<rparr>"

subsection \<open>buildInheritanceGraph\<close>

text \<open>The body of the loop over \<^verbatim>\<open>contract.usingDirectives\<close> (lines 50 to 58). The
  \<^verbatim>\<open>get(forType)!\<close> of the source reads the entry that the statement before it has made sure
  exists, so the \<open>None\<close> branch of the second lookup is never taken.\<close>

definition addDirective :: "UsingDirective \<Rightarrow> (string, string list) alist \<Rightarrow> (string, string list) alist" where
  "addDirective directive t2l =
     (let t2l1 = (if DAList.lookup t2l (forType directive) = None
                  then DAList.update (forType directive) [] t2l else t2l)
      in case DAList.lookup t2l1 (forType directive) of
           None \<Rightarrow> t2l1
         | Some libs \<Rightarrow>
             if libraryName directive \<notin> set libs
             then DAList.update (forType directive) (libs @ [libraryName directive]) t2l1
             else t2l1)"

text \<open>First pass, one contract (lines 43 to 59).\<close>

definition collectContract :: "ContractInfo \<Rightarrow> Resolver \<Rightarrow> Resolver" where
  "collectContract contract r =
     (let r1 = r\<lparr>contractMap := DAList.update (c_name contract) contract (contractMap r)\<rparr>
      in if usingDirectives contract \<noteq> []
         then r1\<lparr>contractUsingDirectives :=
                    DAList.update (c_name contract) (usingDirectives contract) (contractUsingDirectives r1),
                 typeToLibraries := fold addDirective (usingDirectives contract) (typeToLibraries r1)\<rparr>
         else r1)"

text \<open>Second pass, one base name of one contract (lines 66 to 69).\<close>

definition addInheritor :: "string \<Rightarrow> string \<Rightarrow> (string, string list) alist \<Rightarrow> (string, string list) alist" where
  "addInheritor baseName n ib =
     (let ib1 = (if DAList.lookup ib baseName = None then DAList.update baseName [] ib else ib)
      in case DAList.lookup ib1 baseName of
           None \<Rightarrow> ib1
         | Some inheritors \<Rightarrow> DAList.update baseName (set_add n inheritors) ib1)"

text \<open>\<^verbatim>\<open>computeInheritanceChain\<close> (lines 82 to 103). Each recursive call gets its own copy of
  \<^verbatim>\<open>visited\<close>, so the set is passed by value. The inner loop pushes the names of the base's
  chain that the chain does not hold yet.\<close>

definition pushNew :: "'a list \<Rightarrow> 'a list \<Rightarrow> 'a list" where
  "pushNew xs chain = fold (\<lambda>n chain. if n \<notin> set chain then chain @ [n] else chain) xs chain"

function computeInheritanceChain ::
  "(string, ContractInfo) alist \<Rightarrow> string \<Rightarrow> string list \<Rightarrow> string list" where
  "computeInheritanceChain cm cname visited =
     (if cname \<in> set visited then []
      else let visited1 = set_add cname visited;
               chain = [cname]
           in case DAList.lookup cm cname of
                None \<Rightarrow> chain
              | Some contract \<Rightarrow>
                  fold (\<lambda>baseName chain.
                          pushNew (computeInheritanceChain cm baseName visited1) chain)
                       (baseContracts contract) chain)"
  by pat_completeness auto

termination computeInheritanceChain
proof (relation "measure (\<lambda>(cm, n, visited). card (fst ` set (DAList.impl_of cm) - set visited))")
  show "wf (measure (\<lambda>(cm, n, visited). card (fst ` set (DAList.impl_of cm) - set visited)))"
    by simp
next
  fix cm :: "(string, ContractInfo) alist" and cname :: string and visited x xa x2 xb
  assume nv: "cname \<notin> set visited"
    and x: "x = set_add cname visited"
    and lk: "DAList.lookup cm cname = Some x2"
  have "cname \<in> fst ` set (DAList.impl_of cm)"
    using lk by transfer (auto dest: map_of_SomeD intro: rev_image_eqI)
  then have mem: "cname \<in> fst ` set (DAList.impl_of cm) - set visited"
    using nv by simp
  have "fst ` set (DAList.impl_of cm) - set x \<subset> fst ` set (DAList.impl_of cm) - set visited"
    using mem x by (auto simp: set_add_def)
  then have "card (fst ` set (DAList.impl_of cm) - set x) < card (fst ` set (DAList.impl_of cm) - set visited)"
    by (intro psubset_card_mono) auto
  then show "((cm, xb, x), (cm, cname, visited))
      \<in> measure (\<lambda>(cm, n, visited). card (fst ` set (DAList.impl_of cm) - set visited))"
    by simp
qed

declare computeInheritanceChain.simps [simp del]

text \<open>\<^verbatim>\<open>buildInheritanceGraph\<close> (lines 33 to 77): the maps are cleared, then the three passes
  run. The workspace is a \<^verbatim>\<open>Map\<close> from file path to parsed file.\<close>

definition firstPass :: "(string, ParsedFile) alist \<Rightarrow> Resolver \<Rightarrow> Resolver" where
  "firstPass workspaceFiles r =
     fold (\<lambda>(path, parsedFile) r. fold collectContract (contracts parsedFile) r)
          (DAList.impl_of workspaceFiles) r"

definition secondPass :: "Resolver \<Rightarrow> Resolver" where
  "secondPass r =
     fold (\<lambda>(n, contract) r.
             fold (\<lambda>baseName r. r\<lparr>inheritedBy := addInheritor baseName n (inheritedBy r)\<rparr>)
                  (baseContracts contract) r)
          (DAList.impl_of (contractMap r)) r"

definition thirdPass :: "Resolver \<Rightarrow> Resolver" where
  "thirdPass r =
     fold (\<lambda>(n, contract) r.
             r\<lparr>inheritanceChains :=
                 DAList.update n (computeInheritanceChain (contractMap r) n []) (inheritanceChains r)\<rparr>)
          (DAList.impl_of (contractMap r)) r"

definition buildInheritanceGraph :: "(string, ParsedFile) alist \<Rightarrow> Resolver" where
  "buildInheritanceGraph workspaceFiles = thirdPass (secondPass (firstPass workspaceFiles cleared))"

subsection \<open>Queries\<close>

text \<open>\<^verbatim>\<open>getImplementingContracts\<close> (lines 138 to 153). The closure \<^verbatim>\<open>collectInheritors\<close>
  calls itself for every inheritor and keeps no record of the names it has expanded. Its
  recursion is bounded here by the depth of the call stack: with \<open>depth\<close> frames left the
  call returns \<open>None\<close> where the source would need one frame more (the engine then throws
  \<^verbatim>\<open>RangeError\<close>). \<open>collectInheritors\<close> is the closure, \<open>collectLoop\<close> its \<^verbatim>\<open>for\<close> loop;
  the set \<^verbatim>\<open>result\<close> is threaded through.\<close>

fun collectInheritors ::
    "nat \<Rightarrow> (string, string list) alist \<Rightarrow> string \<Rightarrow> string list \<Rightarrow> string list option"
  and collectLoop ::
    "nat \<Rightarrow> (string, string list) alist \<Rightarrow> string list \<Rightarrow> string list \<Rightarrow> string list option" where
  "collectInheritors 0 ib n result = None"
| "collectInheritors (Suc depth) ib n result =
     (case DAList.lookup ib n of
        None \<Rightarrow> Some result
      | Some inheritors \<Rightarrow> collectLoop depth ib inheritors result)"
| "collectLoop depth ib [] result = Some result"
| "collectLoop depth ib (inheritor # rest) result =
     (case collectInheritors depth ib inheritor (set_add inheritor result) of
        None \<Rightarrow> None
      | Some result1 \<Rightarrow> collectLoop depth ib rest result1)"

definition getImplementingContracts :: "nat \<Rightarrow> Resolver \<Rightarrow> string \<Rightarrow> string list option" where
  "getImplementingContracts depth r interfaceName = collectInheritors depth (inheritedBy r) interfaceName []"

text \<open>\<^verbatim>\<open>findMethodInContract\<close> (lines 158 to 184); \<open>findMethodInChain\<close> is its loop over the
  chain, which returns at the first implementation.\<close>

fun findMethodInChain ::
  "Resolver \<Rightarrow> string \<Rightarrow> string \<Rightarrow> string list \<Rightarrow> string list \<Rightarrow> ImplementationInfo option" where
  "findMethodInChain r cname methodName chain [] = None"
| "findMethodInChain r cname methodName chain (n # rest) =
     (case DAList.lookup (contractMap r) n of
        None \<Rightarrow> findMethodInChain r cname methodName chain rest
      | Some contract \<Rightarrow>
          if kind contract = Interface then findMethodInChain r cname methodName chain rest
          else case find (\<lambda>f. f_name f = methodName) (c_functions contract) of
                 None \<Rightarrow> findMethodInChain r cname methodName chain rest
               | Some func \<Rightarrow>
                   if hasBody func
                   then Some \<lparr>contractName = n, contractKind = kind contract, functionInfo = func,
                              filePath = c_filePath contract, isInherited = (n \<noteq> cname),
                              inheritanceChain = chain\<rparr>
                   else findMethodInChain r cname methodName chain rest)"

definition findMethodInContract :: "Resolver \<Rightarrow> string \<Rightarrow> string \<Rightarrow> ImplementationInfo option" where
  "findMethodInContract r cname methodName =
     (let chain = (case DAList.lookup (inheritanceChains r) cname of
                     Some chain \<Rightarrow> chain | None \<Rightarrow> [cname])
      in findMethodInChain r cname methodName chain chain)"

text \<open>\<^verbatim>\<open>findImplementations\<close> (lines 112 to 133).\<close>

definition findImplementations :: "nat \<Rightarrow> Resolver \<Rightarrow> string \<Rightarrow> string \<Rightarrow> ImplementationInfo list option" where
  "findImplementations depth r interfaceName methodName =
     (case getImplementingContracts depth r interfaceName of
        None \<Rightarrow> None
      | Some implementingContracts \<Rightarrow>
          Some (fold (\<lambda>cname implementations.
                  case DAList.lookup (contractMap r) cname of
                    None \<Rightarrow> implementations
                  | Some contract \<Rightarrow>
                      if kind contract = Interface then implementations
                      else case findMethodInContract r cname methodName of
                             Some impl \<Rightarrow> implementations @ [impl]
                           | None \<Rightarrow> implementations)
                implementingContracts []))"

text \<open>\<^verbatim>\<open>findContractsWithMethod\<close> (lines 189 to 219).\<close>

definition findContractsWithMethod :: "Resolver \<Rightarrow> string \<Rightarrow> nat option \<Rightarrow> ImplementationInfo list" where
  "findContractsWithMethod r methodName paramCount =
     fold (\<lambda>(n, contract) implementations.
             if kind contract = Interface then implementations
             else fold (\<lambda>func implementations.
                          if f_name func = methodName
                          then if paramCount \<noteq> None \<and> Some (length (parameters func)) \<noteq> paramCount
                               then implementations
                               else if hasBody func
                               then implementations @
                                 [\<lparr>contractName = n, contractKind = kind contract, functionInfo = func,
                                   filePath = c_filePath contract, isInherited = False,
                                   inheritanceChain =
                                     (case DAList.lookup (inheritanceChains r) n of
                                        Some chain \<Rightarrow> chain | None \<Rightarrow> [n])\<rparr>]
                               else implementations
                          else implementations)
                       (c_functions contract) implementations)
          (DAList.impl_of (contractMap r)) []"

text \<open>\<^verbatim>\<open>findLibraryMethods\<close> (lines 281 to 335). \<open>librariesToSearch\<close> is the candidate list
  that the first three loops assemble; the optional \<^verbatim>\<open>contextContract\<close> is absent (\<open>None\<close>)
  or a string, and the empty string is as good as absent (\<^verbatim>\<open>if (contextContract)\<close>).\<close>

definition contextLibraries :: "Resolver \<Rightarrow> string \<Rightarrow> string option \<Rightarrow> string list" where
  "contextLibraries r typeName contextContract =
     (case contextContract of
        None \<Rightarrow> []
      | Some ctx \<Rightarrow>
          if ctx = [] then []
          else case DAList.lookup (contractUsingDirectives r) ctx of
                 None \<Rightarrow> []
               | Some directives \<Rightarrow>
                   fold (\<lambda>directive libs.
                           if forType directive = typeName \<or> forType directive = ''*''
                           then libs @ [libraryName directive] else libs)
                        directives [])"

definition librariesFor :: "Resolver \<Rightarrow> string \<Rightarrow> string list" where
  "librariesFor r typeName =
     (case DAList.lookup (typeToLibraries r) typeName of Some libs \<Rightarrow> libs | None \<Rightarrow> [])"

definition librariesToSearch :: "Resolver \<Rightarrow> string \<Rightarrow> string option \<Rightarrow> string list" where
  "librariesToSearch r typeName contextContract =
     (let libs0 = contextLibraries r typeName contextContract;
          globalLibraries = librariesFor r typeName;
          libs1 = pushNew globalLibraries libs0;
          wildcardLibraries = librariesFor r ''*''
      in pushNew wildcardLibraries libs1)"

definition findLibraryMethods :: "Resolver \<Rightarrow> string \<Rightarrow> string \<Rightarrow> string option \<Rightarrow> ImplementationInfo list" where
  "findLibraryMethods r typeName methodName contextContract =
     fold (\<lambda>libName implementations.
             case DAList.lookup (contractMap r) libName of
               None \<Rightarrow> implementations
             | Some library \<Rightarrow>
                 if kind library \<noteq> Library then implementations
                 else case find (\<lambda>f. f_name f = methodName) (c_functions library) of
                        None \<Rightarrow> implementations
                      | Some func \<Rightarrow>
                          if hasBody func
                          then implementations @
                            [\<lparr>contractName = libName, contractKind = Library, functionInfo = func,
                              filePath = c_filePath library, isInherited = False,
                              inheritanceChain = [libName]\<rparr>]
                          else implementations)
          (librariesToSearch r typeName contextContract) []"

text \<open>\<^verbatim>\<open>findAllImplementations\<close> (lines 347 to 365).\<close>

definition findAllImplementations ::
  "nat \<Rightarrow> Resolver \<Rightarrow> string \<Rightarrow> string \<Rightarrow> string option \<Rightarrow> ImplementationInfo list option" where
  "findAllImplementations depth r interfaceName methodName contextContract =
     (let libraryImpls = findLibraryMethods r interfaceName methodName contextContract
      in case findImplementations depth r interfaceName methodName of
           None \<Rightarrow> None
         | Some interfaceImpls \<Rightarrow>
             (let implementations = libraryImpls @ interfaceImpls
              in if length implementations = 0
                 then Some (implementations @ findContractsWithMethod r methodName None)
                 else Some implementations))"


section \<open>Regular expressions\<close>

text \<open>
  The analyzer finds everything with JavaScript regular expressions. The fragment that the
  source uses is a datatype: character classes (a list of ranges, possibly negated), sequence,
  ordered alternative, the greedy star, capture groups, \<^verbatim>\<open>\b\<close>, \<^verbatim>\<open>^\<close>, \<^verbatim>\<open>$\<close> and the
  negative lookahead \<^verbatim>\<open>(?!...)\<close>.

  \<open>rmatch\<close> is the backtracking matcher of ECMAScript as a list of successes: all the ways
  in which the expression matches at the current position, in the order in which backtracking
  tries them, so that the head of the list is the match that the engine reports. A position
  is the character before it (for \<^verbatim>\<open>\b\<close> and \<^verbatim>\<open>^\<close>), the rest of the input and the captures
  made so far. A greedy star tries one more iteration first and drops an iteration that
  consumes nothing, as the engine does. The flag \<open>ic\<close> is the \<^verbatim>\<open>i\<close> of the expression; all
  letters of the expressions of the source that carry it are ASCII, and case folding never
  maps a character outside ASCII to one inside.
\<close>

datatype regex =
    Chars bool "(char \<times> char) list"
  | Eps
  | Seq regex regex
  | Alt regex regex
  | Star regex
  | Group nat regex
  | WordBoundary
  | Start
  | End
  | NotFollowedBy regex

type_synonym mstate = "char option \<times> string \<times> (nat \<times> string) list"

definition inRanges :: "(char \<times> char) list \<Rightarrow> char \<Rightarrow> bool" where
  "inRanges rs c \<longleftrightarrow> list_ex (\<lambda>(lo, hi). lo \<le> c \<and> c \<le> hi) rs"

definition toLower :: "char \<Rightarrow> char" where
  "toLower c = (if CHR ''A'' \<le> c \<and> c \<le> CHR ''Z''
     then (case c of Char b0 b1 b2 b3 b4 b5 b6 b7 \<Rightarrow> Char b0 b1 b2 b3 b4 True b6 b7) else c)"

definition toUpper :: "char \<Rightarrow> char" where
  "toUpper c = (if CHR ''a'' \<le> c \<and> c \<le> CHR ''z''
     then (case c of Char b0 b1 b2 b3 b4 b5 b6 b7 \<Rightarrow> Char b0 b1 b2 b3 b4 False b6 b7) else c)"

definition classMatches :: "bool \<Rightarrow> bool \<Rightarrow> (char \<times> char) list \<Rightarrow> char \<Rightarrow> bool" where
  "classMatches ic neg rs c \<longleftrightarrow>
     (neg \<noteq> (inRanges rs c \<or> (ic \<and> (inRanges rs (toLower c) \<or> inRanges rs (toUpper c)))))"

definition isWordChar :: "char \<Rightarrow> bool" where
  "isWordChar c \<longleftrightarrow> inRanges [(CHR ''a'', CHR ''z''), (CHR ''A'', CHR ''Z''), (CHR ''0'', CHR ''9''), (CHR ''_'', CHR ''_'')] c"

definition isWordOpt :: "char option \<Rightarrow> bool" where
  "isWordOpt c = (case c of None \<Rightarrow> False | Some c \<Rightarrow> isWordChar c)"

function rmatch :: "bool \<Rightarrow> regex \<Rightarrow> mstate \<Rightarrow> mstate list" where
  "rmatch ic (Chars neg rs) (p, rest, caps) =
     (case rest of [] \<Rightarrow> []
      | c # cs \<Rightarrow> if classMatches ic neg rs c then [(Some c, cs, caps)] else [])"
| "rmatch ic Eps st = [st]"
| "rmatch ic (Seq a b) st = concat (map (rmatch ic b) (rmatch ic a st))"
| "rmatch ic (Alt a b) st = rmatch ic a st @ rmatch ic b st"
| "rmatch ic (Star a) (p, rest, caps) =
     concat (map (rmatch ic (Star a))
                 (filter (\<lambda>(p1, rest1, caps1). length rest1 < length rest) (rmatch ic a (p, rest, caps))))
     @ [(p, rest, caps)]"
| "rmatch ic (Group n a) (p, rest, caps) =
     map (\<lambda>(p1, rest1, caps1). (p1, rest1, (n, take (length rest - length rest1) rest) # caps1))
         (rmatch ic a (p, rest, caps))"
| "rmatch ic WordBoundary (p, rest, caps) =
     (if isWordOpt p \<noteq> isWordOpt (case rest of [] \<Rightarrow> None | c # cs \<Rightarrow> Some c) then [(p, rest, caps)] else [])"
| "rmatch ic Start (p, rest, caps) = (if p = None then [(p, rest, caps)] else [])"
| "rmatch ic End (p, rest, caps) = (if rest = [] then [(p, rest, caps)] else [])"
| "rmatch ic (NotFollowedBy a) st = (if rmatch ic a st = [] then [st] else [])"
  by pat_completeness auto
termination
  by (relation "measures [\<lambda>(ic, r, st). size r, \<lambda>(ic, r, (p, rest, caps)). length rest]") auto

declare rmatch.simps [simp del]

text \<open>Derived forms: a literal text, \<^verbatim>\<open>r+\<close>, \<^verbatim>\<open>r?\<close>, the classes \<^verbatim>\<open>\d\<close>, \<^verbatim>\<open>\w\<close>, \<^verbatim>\<open>\s\<close>,
  the identifier \<^verbatim>\<open>[a-z_][a-zA-Z0-9_]*\<close> and the operator class \<^verbatim>\<open>[+\-*\/]\<close>.\<close>

fun lit :: "string \<Rightarrow> regex" where
  "lit [] = Eps"
| "lit (c # cs) = Seq (Chars False [(c, c)]) (lit cs)"


fun seqs :: "regex list \<Rightarrow> regex" where
  "seqs [] = Eps"
| "seqs (r # rs) = Seq r (seqs rs)"

fun alts :: "regex list \<Rightarrow> regex" where
  "alts [] = Chars False []"
| "alts [r] = r"
| "alts (r # rs) = Alt r (alts rs)"

definition OneOrMore :: "regex \<Rightarrow> regex" where
  "OneOrMore r = Seq r (Star r)"

definition Optional :: "regex \<Rightarrow> regex" where
  "Optional r = Alt r Eps"

definition oneOf :: "string \<Rightarrow> regex" where
  "oneOf cs = Chars False (map (\<lambda>c. (c, c)) cs)"

definition noneOf :: "string \<Rightarrow> regex" where
  "noneOf cs = Chars True (map (\<lambda>c. (c, c)) cs)"

definition digit :: regex where
  "digit = Chars False [(CHR ''0'', CHR ''9'')]"

definition word :: regex where
  "word = Chars False [(CHR ''a'', CHR ''z''), (CHR ''A'', CHR ''Z''), (CHR ''0'', CHR ''9''), (CHR ''_'', CHR ''_'')]"

definition space :: regex where
  "space = Chars False [(CHR 0x09, CHR 0x0D), (CHR 0x20, CHR 0x20), (CHR 0xA0, CHR 0xA0)]"

definition ident :: regex where
  "ident = Seq (Chars False [(CHR ''a'', CHR ''z''), (CHR ''_'', CHR ''_'')]) (Star word)"

definition operator :: regex where
  "operator = oneOf ''+-*/''"

text \<open>
  \<^verbatim>\<open>RegExp.prototype.exec\<close>: \<open>search\<close> tries the positions from the current one on and returns
  the first match, as its start and end position; \<open>index\<close> is \<^verbatim>\<open>match.index\<close> and \<open>group k\<close>
  is \<^verbatim>\<open>match[k]\<close> (\<open>None\<close> for \<^verbatim>\<open>undefined\<close>). \<open>test\<close> is \<^verbatim>\<open>RegExp.prototype.test\<close> of an
  expression without the \<^verbatim>\<open>g\<close> flag, and \<open>search\<close> from \<open>start\<close> is \<^verbatim>\<open>String.prototype.match\<close>
  with such an expression.

  \<open>execAll\<close> is the loop \<^verbatim>\<open>while ((match = pattern.exec(line)) !== null)\<close> over an expression
  with the \<^verbatim>\<open>g\<close> flag: each search starts where the last match ended. After an empty match
  the next search finds the same match again and the loop of the source never ends; the
  model returns \<open>Inl Diverges\<close> then. The other failure, \<open>SyntaxError\<close>, is the exception of
  the \<^verbatim>\<open>RegExp\<close> constructor for a text that is not an expression.
\<close>

datatype failure = Diverges | SyntaxError

type_synonym match = "mstate \<times> mstate"

fun search :: "bool \<Rightarrow> regex \<Rightarrow> mstate \<Rightarrow> match option" where
  "search ic r (p, rest, caps) =
     (case rmatch ic r (p, rest, []) of
        m # ms \<Rightarrow> Some ((p, rest, []), m)
      | [] \<Rightarrow> (case rest of [] \<Rightarrow> None | c # cs \<Rightarrow> search ic r (Some c, cs, [])))"

definition remaining :: "mstate \<Rightarrow> nat" where
  "remaining st = length (fst (snd st))"

definition start :: "string \<Rightarrow> mstate" where
  "start s = (None, s, [])"

definition test :: "bool \<Rightarrow> regex \<Rightarrow> string \<Rightarrow> bool" where
  "test ic r s \<longleftrightarrow> search ic r (start s) \<noteq> None"

definition index :: "string \<Rightarrow> match \<Rightarrow> int" where
  "index s m = int (length s - remaining (fst m))"

definition group :: "nat \<Rightarrow> match \<Rightarrow> string option" where
  "group k m = map_of (snd (snd (snd m))) k"

definition groupOrEmpty :: "nat \<Rightarrow> match \<Rightarrow> string" where
  "groupOrEmpty k m = (case group k m of Some s \<Rightarrow> s | None \<Rightarrow> [])"

function execLoop :: "bool \<Rightarrow> regex \<Rightarrow> mstate \<Rightarrow> failure + match list" where
  "execLoop ic r st =
     (case search ic r st of
        None \<Rightarrow> Inr []
      | Some (b, e) \<Rightarrow>
          if remaining e = remaining b then Inl Diverges
          else (case execLoop ic r e of Inl f \<Rightarrow> Inl f | Inr ms \<Rightarrow> Inr ((b, e) # ms)))"
  by pat_completeness auto
termination
proof (relation "measure (\<lambda>(ic, r, st). remaining st)")
  show "wf (measure (\<lambda>(ic, r, st). remaining st))" by simp
next
  fix ic r st x2 b e
  assume s: "search ic r st = Some x2" and x2: "(b, e) = x2" and ne: "remaining e \<noteq> remaining b"
  have rm: "\<And>ic r st st'. st' \<in> set (rmatch ic r st) \<Longrightarrow> remaining st' \<le> remaining st"
  proof -
    fix ic r st st'
    show "st' \<in> set (rmatch ic r st) \<Longrightarrow> remaining st' \<le> remaining st"
    proof (induction ic r st arbitrary: st' rule: rmatch.induct)
      case (1 ic neg rs p rest caps)
      then show ?case by (cases rest) (auto simp: rmatch.simps remaining_def split: if_splits)
    next
      case (2 ic st)
      then show ?case by (simp add: rmatch.simps)
    next
      case (3 ic a b st)
      from "3.prems" obtain x where x: "x \<in> set (rmatch ic a st)" and y: "st' \<in> set (rmatch ic b x)"
        by (auto simp: rmatch.simps(3))
      from "3.IH"(1)[OF x] "3.IH"(2)[OF x y] show ?case by simp
    next
      case (4 ic a b st)
      from "4.prems" have "st' \<in> set (rmatch ic a st) \<or> st' \<in> set (rmatch ic b st)"
        by (simp add: rmatch.simps(4))
      then show ?case using "4.IH" by blast
    next
      case (5 ic a p rest caps)
      show ?case
      proof (cases "st' = (p, rest, caps)")
        case True
        then show ?thesis by simp
      next
        case False
        with "5.prems" obtain x where x: "x \<in> set (filter (\<lambda>(p1, rest1, caps1). length rest1 < length rest) (rmatch ic a (p, rest, caps)))"
          and y: "st' \<in> set (rmatch ic (Star a) x)"
          by (subst (asm) rmatch.simps(5)) auto
        have lt: "remaining x < remaining (p, rest, caps)"
          using x by (auto simp: remaining_def)
        from "5.IH"(2)[OF x y] lt show ?thesis by simp
      qed
    next
      case (6 ic n a p rest caps)
      from "6.prems" obtain x where x: "x \<in> set (rmatch ic a (p, rest, caps))"
        and r: "remaining st' = remaining x"
        by (subst (asm) rmatch.simps(6)) (auto simp: remaining_def)
      from "6.IH"[OF x] r show ?case by simp
    next
      case (7 ic p rest caps)
      then show ?case by (simp add: rmatch.simps split: if_splits)
    next
      case (8 ic p rest caps)
      then show ?case by (simp add: rmatch.simps split: if_splits)
    next
      case (9 ic p rest caps)
      then show ?case by (simp add: rmatch.simps split: if_splits)
    next
      case (10 ic a st)
      then show ?case by (simp add: rmatch.simps(10) split: if_splits)
    qed
  qed
  have sr: "\<And>ic r st b e. search ic r st = Some (b, e) \<Longrightarrow> remaining e \<le> remaining b \<and> remaining b \<le> remaining st"
  proof -
    fix ic r st b e
    show "search ic r st = Some (b, e) \<Longrightarrow> remaining e \<le> remaining b \<and> remaining b \<le> remaining st"
    proof (induction ic r st rule: search.induct)
      case (1 ic r p rest caps)
      show ?case
      proof (cases "rmatch ic r (p, rest, [])")
        case Nil
        then show ?thesis using 1 by (cases rest) (auto simp: remaining_def)
      next
        case (Cons m ms)
        then have "m \<in> set (rmatch ic r (p, rest, []))" by simp
        from rm[OF this] show ?thesis using 1 Cons by (auto simp: remaining_def)
      qed
    qed
  qed
  from sr[of ic r st b e] s x2 ne have "remaining e < remaining st" by auto
  then show "((ic, r, e), (ic, r, st)) \<in> measure (\<lambda>(ic, r, st). remaining st)" by simp
qed

definition execAll :: "bool \<Rightarrow> regex \<Rightarrow> string \<Rightarrow> failure + match list" where
  "execAll ic r s = execLoop ic r (start s)"


declare execLoop.simps [simp del]

text \<open>String functions: \<^verbatim>\<open>split(sep)\<close> with a one-character separator, \<^verbatim>\<open>split(/\s+/)\<close>,
  \<^verbatim>\<open>indexOf\<close> and \<^verbatim>\<open>includes\<close>.\<close>

fun splitOn :: "char \<Rightarrow> string \<Rightarrow> string list" where
  "splitOn sep [] = [[]]"
| "splitOn sep (c # cs) =
     (if c = sep then [] # splitOn sep cs
      else (case splitOn sep cs of [] \<Rightarrow> [[c]] | piece # pieces \<Rightarrow> (c # piece) # pieces))"

function splitWhiteSpace :: "string \<Rightarrow> string \<Rightarrow> string list" where
  "splitWhiteSpace [] piece = [piece]"
| "splitWhiteSpace (c # cs) piece =
     (if isWhiteSpace c then piece # splitWhiteSpace (dropWhile isWhiteSpace cs) []
      else splitWhiteSpace cs (piece @ [c]))"
  by pat_completeness auto
termination
  by (relation "measure (\<lambda>(s, piece). length s)") (auto intro: le_imp_less_Suc length_dropWhile_le)

fun indexOfFrom :: "string \<Rightarrow> string \<Rightarrow> nat \<Rightarrow> int" where
  "indexOfFrom needle [] i = (if needle = [] then int i else - 1)"
| "indexOfFrom needle (c # cs) i =
     (if take (length needle) (c # cs) = needle then int i else indexOfFrom needle cs (Suc i))"

definition indexOf :: "string \<Rightarrow> string \<Rightarrow> int" where
  "indexOf s needle = indexOfFrom needle s 0"

definition includes_str :: "string \<Rightarrow> string \<Rightarrow> bool" where
  "includes_str s needle \<longleftrightarrow> indexOf s needle \<noteq> - 1"


section \<open>DataFlowAnalyzer\<close>

text \<open>The graph records of \<^verbatim>\<open>types.ts\<close>. Nodes are never changed once made, so the node
  object that the source shares between the node list, an index and the edges is a value
  here. An optional field is an \<open>option\<close>.\<close>

datatype NodeKind = KindParameter | KindLocal | KindState | KindReturn | KindMsg | KindBlock | KindTx

datatype DefiTag = TokenAmount | AddressTarget | MsgValue | MsgSender | Balance

datatype EdgeType = EdgeAssign | EdgeUse | EdgeCallArg | EdgeReturn | EdgeStateWrite | EdgeStateRead
  | EdgeExternalCall

datatype SinkKind = SinkExternalCall | SinkStateWrite | SinkReturn | SinkEventEmit

record DataFlowNode =
  varName :: string
  n_kind :: NodeKind
  n_line :: nat
  n_column :: int
  isDefinition :: bool
  n_typeName :: "string option"
  defiTag :: "DefiTag option"

record DataFlowEdge =
  e_from :: DataFlowNode
  e_to :: DataFlowNode
  edgeType :: EdgeType
  transformation :: "string option"

record SinkInfo =
  s_kind :: SinkKind
  s_line :: nat
  s_column :: int
  description :: string
  inputVars :: "string list"
  callTarget :: "string option"

record DataFlowGraph =
  nodes :: "DataFlowNode list"
  edges :: "DataFlowEdge list"
  sinks :: "SinkInfo list"
  definitions :: "(string, DataFlowNode list) alist"
  uses :: "(string, DataFlowNode list) alist"

text \<open>The expressions of lines 428, 431 and 448 to 482.\<close>

definition AMOUNT_PATTERNS :: regex where
  "AMOUNT_PATTERNS = seqs [Start,
     Group 1 (alts [lit ''amount'', lit ''value'', lit ''qty'', lit ''quantity'', lit ''balance'',
       lit ''shares'', Seq (lit ''token'') (Optional (lit ''s'')), Seq (lit ''asset'') (Optional (lit ''s'')),
       lit ''debt'', lit ''collateral'', lit ''principal'', lit ''interest'', lit ''fee'',
       lit ''reward'', lit ''price'', lit ''rate'', lit ''liquidity'', lit ''reserve'', lit ''supply'',
       lit ''borrow'', lit ''lend'', lit ''stake'', lit ''deposit'', lit ''withdraw'', lit ''repay'',
       lit ''claim'', lit ''earned'', lit ''accrued'', lit ''owed'', lit ''due'', lit ''delta'',
       lit ''diff'', lit ''change'', lit ''input'', lit ''output'', lit ''in'', lit ''out'']),
     Optional (lit ''_''), Star digit, End]"

definition ADDRESS_PATTERNS :: regex where
  "ADDRESS_PATTERNS = seqs [Start,
     Group 1 (alts [lit ''to'', lit ''from'', lit ''recipient'', lit ''sender'', lit ''target'',
       lit ''dest'', lit ''destination'', lit ''owner'', lit ''spender'', lit ''operator'', lit ''pool'',
       lit ''vault'', lit ''token'', lit ''contract'', lit ''router'', lit ''factory'', lit ''pair'',
       lit ''oracle'', lit ''controller'', lit ''manager'', lit ''registry'', lit ''adapter'',
       lit ''strategy'', lit ''gauge'', lit ''staker'', lit ''delegatee'', lit ''borrower'',
       lit ''lender'', lit ''liquidator'', lit ''receiver'']),
     Optional (lit ''_''), Star digit, End]"

definition call :: "string \<Rightarrow> regex" where
  "call m = seqs [lit ''.'', lit m, Star space, lit ''('']"

definition EXTERNAL_CALL_PATTERNS :: "regex list" where
  "EXTERNAL_CALL_PATTERNS =
     [call ''transfer'', call ''send'', seqs [lit ''.call'', Star space, oneOf ''{(''],
      call ''delegatecall'', call ''staticcall'', call ''safeTransfer'', call ''safeTransferFrom'',
      call ''safeApprove'', call ''approve'', call ''transferFrom'', call ''mint'', call ''burn'',
      call ''deposit'', call ''withdraw'', call ''borrow'', call ''repay'', call ''swap'',
      seqs [lit ''.flash'', Star word, Star space, lit ''(''],
      call ''liquidate'', call ''stake'', call ''unstake'', call ''claim'', call ''harvest'',
      call ''compound'', call ''redeem'', call ''supply'', call ''getReward'', call ''execute'',
      call ''multicall'', call ''exactInput'', call ''exactOutput'', call ''addLiquidity'',
      call ''removeLiquidity'']"

text \<open>\<^verbatim>\<open>inferDefiTag\<close> (lines 992 to 1013).\<close>

definition inferDefiTag :: "string \<Rightarrow> string option \<Rightarrow> DefiTag option" where
  "inferDefiTag v ty =
     (if v = ''msg.value'' then Some MsgValue
      else if v = ''msg.sender'' then Some MsgSender
      else if test True (lit ''balance'') v then Some Balance
      else if test True AMOUNT_PATTERNS v then Some TokenAmount
      else if test True ADDRESS_PATTERNS v \<or> ty = Some ''address'' then Some AddressTarget
      else None)"

text \<open>The idiom \<^verbatim>\<open>if (!map.has(k)) map.set(k, []); map.get(k)!.push(node)\<close>, and with it
  \<^verbatim>\<open>nodes.push(node)\<close> for a definition and for a use.\<close>

definition pushTo :: "string \<Rightarrow> DataFlowNode \<Rightarrow> (string, DataFlowNode list) alist
    \<Rightarrow> (string, DataFlowNode list) alist" where
  "pushTo k node m =
     (let m1 = (if DAList.lookup m k = None then DAList.update k [] m else m)
      in case DAList.lookup m1 k of
           None \<Rightarrow> m1
         | Some ns \<Rightarrow> DAList.update k (ns @ [node]) m1)"

definition addDefinition :: "DataFlowNode \<Rightarrow> DataFlowGraph \<Rightarrow> DataFlowGraph" where
  "addDefinition node g =
     g\<lparr>nodes := nodes g @ [node], definitions := pushTo (varName node) node (definitions g)\<rparr>"

definition addUse :: "DataFlowNode \<Rightarrow> DataFlowGraph \<Rightarrow> DataFlowGraph" where
  "addUse node g =
     g\<lparr>nodes := nodes g @ [node], uses := pushTo (varName node) node (uses g)\<rparr>"

text \<open>\<^verbatim>\<open>extractParameterDefinitions\<close> (lines 551 to 577).\<close>

definition extractParameterDefinitions :: "ParameterInfo list \<Rightarrow> nat \<Rightarrow> DataFlowGraph \<Rightarrow> DataFlowGraph" where
  "extractParameterDefinitions params lineNum g =
     fold (\<lambda>param g.
             if p_name param = [] then g
             else addDefinition
                    \<lparr>varName = p_name param, n_kind = KindParameter, n_line = lineNum, n_column = 0,
                      isDefinition = True, n_typeName = Some (p_typeName param),
                      defiTag = inferDefiTag (p_name param) (Some (p_typeName param))\<rparr> g)
          params g"

text \<open>\<^verbatim>\<open>extractVariablesFromExpression\<close> (lines 967 to 987), and the other list of words to
  skip, of \<^verbatim>\<open>extractUses\<close> (lines 754 to 760).\<close>

definition skipWordsExpression :: "string list" where
  "skipWordsExpression =
     [''if'', ''else'', ''for'', ''while'', ''do'', ''return'', ''require'', ''assert'', ''revert'',
      ''emit'', ''new'', ''delete'', ''true'', ''false'', ''this'', ''super'',
      ''memory'', ''storage'', ''calldata'', ''public'', ''private'', ''internal'', ''external'',
      ''pure'', ''view'', ''payable'', ''abi'', ''type'', ''msg'', ''block'', ''tx'']"

definition skipWordsUses :: "string list" where
  "skipWordsUses =
     [''if'', ''else'', ''for'', ''while'', ''do'', ''return'', ''require'', ''assert'', ''revert'',
      ''emit'', ''new'', ''delete'', ''true'', ''false'', ''this'', ''super'',
      ''memory'', ''storage'', ''calldata'', ''public'', ''private'', ''internal'', ''external'',
      ''pure'', ''view'', ''payable'', ''virtual'', ''override'', ''indexed'',
      ''abi'', ''block'', ''tx'', ''gasleft'', ''blockhash'', ''type'']"

definition identifierPattern :: regex where
  "identifierPattern = seqs [WordBoundary, Group 1 ident, WordBoundary]"

definition extractVariablesFromExpression :: "string \<Rightarrow> failure + string list" where
  "extractVariablesFromExpression expression =
     (case execAll False identifierPattern expression of
        Inl f \<Rightarrow> Inl f
      | Inr ms \<Rightarrow>
          Inr (fold (\<lambda>m vars.
                  let v = groupOrEmpty 1 m
                  in if v \<notin> set skipWordsExpression \<and> v \<notin> set vars then vars @ [v] else vars)
                ms []))"

text \<open>\<^verbatim>\<open>extractLocalDeclarations\<close> (lines 582 to 649). The functions of the analyzer change
  the graph that they are given; here they return it, or the failure.\<close>

definition declPattern :: regex where
  "declPattern = seqs [WordBoundary,
     Group 1 (alts [Seq (lit ''uint'') (Star digit), Seq (lit ''int'') (Star digit), lit ''address'',
       lit ''bool'', Seq (lit ''bytes'') (Star digit), lit ''string'',
       seqs [lit ''mapping('', OneOrMore (noneOf '')''), lit '')''],
       Seq (Chars False [(CHR ''A'', CHR ''Z'')]) (Star word)]),
     OneOrMore space,
     Optional (alts [Seq (lit ''memory'') (OneOrMore space), Seq (lit ''storage'') (OneOrMore space),
                Seq (lit ''calldata'') (OneOrMore space)]),
     Group 2 ident, Star space, oneOf ''=;,)'']"

definition tuplePattern :: regex where
  "tuplePattern = seqs [lit ''('', Star space, Group 1 (OneOrMore (noneOf '')'')), Star space, lit '')'',
     Star space, lit ''='']"

definition andThen :: "failure + 'a \<Rightarrow> ('a \<Rightarrow> failure + 'b) \<Rightarrow> failure + 'b" where
  "andThen x f = (case x of Inl e \<Rightarrow> Inl e | Inr a \<Rightarrow> f a)"

fun foldResult :: "('a \<Rightarrow> 'b \<Rightarrow> failure + 'b) \<Rightarrow> 'a list \<Rightarrow> 'b \<Rightarrow> failure + 'b" where
  "foldResult f [] b = Inr b"
| "foldResult f (x # xs) b = (case f x b of Inl e \<Rightarrow> Inl e | Inr b1 \<Rightarrow> foldResult f xs b1)"

definition extractLocalDeclarations ::
  "string \<Rightarrow> nat \<Rightarrow> string list \<Rightarrow> DataFlowGraph \<Rightarrow> failure + DataFlowGraph" where
  "extractLocalDeclarations ln lineNum stateVariables g =
     (case execAll False declPattern ln of
        Inl f \<Rightarrow> Inl f
      | Inr ms \<Rightarrow>
          (let g1 = fold (\<lambda>m g.
                      let ty = groupOrEmpty 1 m; v = groupOrEmpty 2 m
                      in if v \<in> set stateVariables then g
                         else addDefinition
                                \<lparr>varName = v, n_kind = KindLocal, n_line = lineNum,
                                  n_column = index ln m, isDefinition = True, n_typeName = Some ty,
                                  defiTag = inferDefiTag v (Some ty)\<rparr> g)
                    ms g
           in case search False tuplePattern (start ln) of
                None \<Rightarrow> Inr g1
              | Some tupleMatch \<Rightarrow>
                  Inr (fold (\<lambda>varDecl g.
                         let parts = splitWhiteSpace varDecl []; v = last parts
                         in if v \<noteq> [] \<and> test False (seqs [Start, ident, End]) v
                               \<and> v \<notin> set stateVariables
                            then addDefinition
                                   \<lparr>varName = v, n_kind = KindLocal, n_line = lineNum,
                                     n_column = indexOf ln v, isDefinition = True, n_typeName = None,
                                     defiTag = inferDefiTag v
                                       (if length parts > 1 then Some (hd parts) else None)\<rparr> g
                            else g)
                       (map trim (splitOn CHR '','' (groupOrEmpty 1 tupleMatch))) g1)))"

text \<open>\<^verbatim>\<open>extractAssignments\<close> (lines 654 to 737).\<close>

definition assignPattern :: regex where
  "assignPattern = seqs [WordBoundary, Group 1 ident, Star space, Optional (Group 2 operator), lit ''='',
     Star space, Group 3 (OneOrMore (noneOf '';''))]"

definition mappingWritePattern :: regex where
  "mappingWritePattern = seqs [WordBoundary, Group 1 ident, Star space, lit ''['', OneOrMore (noneOf '']''),
     lit '']'', Star space, Optional operator, lit ''='']"

definition extractAssignments ::
  "string \<Rightarrow> nat \<Rightarrow> string list \<Rightarrow> DataFlowGraph \<Rightarrow> failure + DataFlowGraph" where
  "extractAssignments ln lineNum stateVariables g =
     andThen (execAll False assignPattern ln) (\<lambda>ms.
     andThen (foldResult (\<lambda>m g.
                let targetVar = groupOrEmpty 1 m;
                    operator = groupOrEmpty 2 m;
                    expression = groupOrEmpty 3 m;
                    isStateWrite = (targetVar \<in> set stateVariables);
                    targetNode = \<lparr>varName = targetVar,
                                   n_kind = (if isStateWrite then KindState else KindLocal),
                                   n_line = lineNum, n_column = index ln m, isDefinition = True,
                                   n_typeName = None, defiTag = inferDefiTag targetVar None\<rparr>;
                    g1 = (if \<not> isStateWrite
                          then (case DAList.lookup (definitions g) targetVar of
                                  None \<Rightarrow> addDefinition targetNode g
                                | Some existingDefs \<Rightarrow>
                                    if existingDefs = [] then addDefinition targetNode g else g)
                          else g)
                in andThen (extractVariablesFromExpression expression) (\<lambda>rhsVars.
                   Inr (fold (\<lambda>sourceVar g.
                          if includes_str expression (sourceVar @ ''('') then g
                          else case DAList.lookup (definitions g) sourceVar of
                                 None \<Rightarrow> g
                               | Some sourceDefs \<Rightarrow>
                                   if sourceDefs = [] then g
                                   else g\<lparr>edges := edges g @
                                          [\<lparr>e_from = last sourceDefs, e_to = targetNode,
                                            edgeType = (if isStateWrite then EdgeStateWrite else EdgeAssign),
                                            transformation =
                                              (if operator \<noteq> [] then Some (operator @ ''='') else None)\<rparr>]\<rparr>)
                        rhsVars g1)))
              ms g) (\<lambda>g2.
     andThen (execAll False mappingWritePattern ln) (\<lambda>ms2.
     Inr (fold (\<lambda>m g.
            let stateVar = groupOrEmpty 1 m
            in if stateVar \<in> set stateVariables
               then g\<lparr>nodes := nodes g @
                      [\<lparr>varName = stateVar, n_kind = KindState, n_line = lineNum,
                        n_column = index ln m, isDefinition = True, n_typeName = None,
                        defiTag = None\<rparr>]\<rparr>
               else g)
          ms2 g2))))"

text \<open>\<^verbatim>\<open>extractSpecialGlobals\<close> (lines 810 to 845) and \<^verbatim>\<open>extractUses\<close> (lines 742 to 805);
  the set \<^verbatim>\<open>seenOnLine\<close> goes through the loop with the graph.\<close>

definition definitionContext :: regex where
  "definitionContext = seqs [Start, Star space, Optional operator, lit ''='', NotFollowedBy (lit ''='')]"

definition specialGlobals :: "(string \<times> NodeKind \<times> DefiTag option) list" where
  "specialGlobals =
     [(''msg.value'', KindMsg, Some MsgValue), (''msg.sender'', KindMsg, Some MsgSender),
      (''msg.data'', KindMsg, None), (''block.timestamp'', KindBlock, None),
      (''block.number'', KindBlock, None), (''tx.origin'', KindTx, None),
      (''tx.gasprice'', KindTx, None)]"

definition extractSpecialGlobals :: "string \<Rightarrow> nat \<Rightarrow> DataFlowGraph \<Rightarrow> failure + DataFlowGraph" where
  "extractSpecialGlobals ln lineNum g =
     foldResult (\<lambda>(name, k, tag) g.
        andThen (execAll False (lit name) ln) (\<lambda>ms.
        Inr (fold (\<lambda>m g. addUse \<lparr>varName = name, n_kind = k, n_line = lineNum,
                                   n_column = index ln m, isDefinition = False, n_typeName = None,
                                   defiTag = tag\<rparr> g)
                  ms g)))
       specialGlobals g"

definition extractUses ::
  "string \<Rightarrow> nat \<Rightarrow> string list \<Rightarrow> DataFlowGraph \<Rightarrow> failure + DataFlowGraph" where
  "extractUses ln lineNum stateVariables g =
     andThen (execAll False identifierPattern ln) (\<lambda>ms.
     extractSpecialGlobals ln lineNum
       (fst (fold (\<lambda>m (g, seenOnLine).
          let v = groupOrEmpty 1 m; column = index ln m
          in if v \<in> set skipWordsUses \<or> v \<in> set seenOnLine then (g, seenOnLine)
             else let seen1 = seenOnLine @ [v];
                      isDefined = (DAList.lookup (definitions g) v \<noteq> None);
                      isState = (v \<in> set stateVariables)
                  in if isDefined \<or> isState
                     then let restOfLine = drop (nat column + length v) ln
                          in if \<not> test False definitionContext restOfLine
                             then (addUse \<lparr>varName = v,
                                     n_kind = (if isState then KindState
                                               else (case DAList.lookup (definitions g) v of
                                                       Some (d # ds) \<Rightarrow> n_kind d
                                                     | _ \<Rightarrow> KindLocal)),
                                     n_line = lineNum, n_column = column, isDefinition = False,
                                     n_typeName = None, defiTag = inferDefiTag v None\<rparr> g, seen1)
                             else (g, seen1)
                     else (g, seen1))
         ms (g, []))))"

text \<open>\<^verbatim>\<open>extractSinks\<close> (lines 850 to 928). The loop over \<^verbatim>\<open>EXTERNAL_CALL_PATTERNS\<close> stops at
  the first expression that matches.

  For each field the source builds two expressions with \<^verbatim>\<open>new RegExp\<close> from texts that contain
  the name of the field; \<open>directAssignSource\<close> and \<open>mappingWriteSource\<close> are these texts
  (\<open>CHR 0x5C\<close> is the backslash). A name of a Solidity identifier has the characters
  \<^verbatim>\<open>[A-Za-z0-9_$]\<close> only. In the expression a word character of the name is a literal and
  \<^verbatim>\<open>$\<close> is the assertion of the end of the input, so that the text is an expression, which
  \<open>directAssign\<close> and \<open>mappingWrite\<close> give as a \<open>regex\<close>. Any other character of a name may be
  syntax of the expression language. For a name with such a character the constructor is the
  parameter \<open>newRegExp\<close> of the model: it maps the text to \<open>None\<close> where \<^verbatim>\<open>new RegExp\<close> throws
  a \<^verbatim>\<open>SyntaxError\<close>, and otherwise to the \<^verbatim>\<open>test\<close> method of the expression built, a function
  of the line alone as the expression has no flag. The statements about \<open>analyze\<close> hold for
  every such constructor.\<close>

type_synonym regExpConstructor = "string \<Rightarrow> (string \<Rightarrow> bool) option"

definition isIdentifierName :: "string \<Rightarrow> bool" where
  "isIdentifierName s \<longleftrightarrow> list_all (\<lambda>c. isWordChar c \<or> c = CHR ''$'') s"

definition fieldName :: "string \<Rightarrow> regex" where
  "fieldName stateVar = seqs (map (\<lambda>c. if c = CHR ''$'' then End else Chars False [(c, c)]) stateVar)"

definition directAssignSource :: "string \<Rightarrow> string" where
  "directAssignSource stateVar =
     CHR 0x5C # ''b'' @ stateVar @ CHR 0x5C # ''s*[+'' @ CHR 0x5C # ''-*'' @ CHR 0x5C # ''/]?=''"

definition directAssign :: "string \<Rightarrow> regex" where
  "directAssign stateVar = seqs [WordBoundary, fieldName stateVar, Star space, Optional operator, lit ''='']"

definition newDirectAssign :: "regExpConstructor \<Rightarrow> string \<Rightarrow> (string \<Rightarrow> bool) option" where
  "newDirectAssign newRegExp stateVar =
     (if isIdentifierName stateVar then Some (test False (directAssign stateVar))
      else newRegExp (directAssignSource stateVar))"

definition mappingWriteSource :: "string \<Rightarrow> string" where
  "mappingWriteSource stateVar =
     CHR 0x5C # ''b'' @ stateVar @ CHR 0x5C # ''s*'' @ CHR 0x5C # ''[[^'' @ CHR 0x5C # '']]+''
       @ CHR 0x5C # '']'' @ CHR 0x5C # ''s*[+'' @ CHR 0x5C # ''-*'' @ CHR 0x5C # ''/]?=''"

definition mappingWrite :: "string \<Rightarrow> regex" where
  "mappingWrite stateVar = seqs [WordBoundary, fieldName stateVar, Star space, lit ''['',
     OneOrMore (noneOf '']''), lit '']'', Star space, Optional operator, lit ''='']"

definition newMappingWrite :: "regExpConstructor \<Rightarrow> string \<Rightarrow> (string \<Rightarrow> bool) option" where
  "newMappingWrite newRegExp stateVar =
     (if isIdentifierName stateVar then Some (test False (mappingWrite stateVar))
      else newRegExp (mappingWriteSource stateVar))"

definition callTargetPattern :: regex where
  "callTargetPattern = seqs [WordBoundary, Group 1 ident, lit ''.'',
     alts [lit ''transfer'', lit ''send'', lit ''call'', lit ''safeTransfer'', lit ''approve'']]"

definition returnPattern :: regex where
  "returnPattern = seqs [WordBoundary, lit ''return'', OneOrMore space, Group 1 (OneOrMore (noneOf '';''))]"

definition emitPattern :: regex where
  "emitPattern = seqs [WordBoundary, lit ''emit'', OneOrMore space,
     Group 1 (Seq (Chars False [(CHR ''A'', CHR ''Z'')]) (Star word)), Star space, lit ''('',
     Group 2 (Star (noneOf '')'')), lit '')'']"

definition addSink :: "SinkInfo \<Rightarrow> DataFlowGraph \<Rightarrow> DataFlowGraph" where
  "addSink sink g = g\<lparr>sinks := sinks g @ [sink]\<rparr>"

definition extractSinks ::
  "regExpConstructor \<Rightarrow> string \<Rightarrow> nat \<Rightarrow> string list \<Rightarrow> DataFlowGraph \<Rightarrow> failure + DataFlowGraph" where
  "extractSinks newRegExp ln lineNum stateVariables g =
     andThen (if list_ex (\<lambda>pattern. test False pattern ln) EXTERNAL_CALL_PATTERNS
              then andThen (extractVariablesFromExpression ln) (\<lambda>vars.
                   Inr (addSink \<lparr>s_kind = SinkExternalCall, s_line = lineNum, s_column = 0,
                                 description = trim ln, inputVars = vars,
                                 callTarget = (case search False callTargetPattern (start ln) of
                                                 None \<Rightarrow> None | Some m \<Rightarrow> group 1 m)\<rparr> g))
              else Inr g) (\<lambda>g1.
     andThen (case search False returnPattern (start ln) of
                None \<Rightarrow> Inr g1
              | Some returnMatch \<Rightarrow>
                  andThen (extractVariablesFromExpression (groupOrEmpty 1 returnMatch)) (\<lambda>vars.
                  Inr (addSink \<lparr>s_kind = SinkReturn, s_line = lineNum,
                                s_column = indexOf ln ''return'',
                                description = ''return '' @ trim (groupOrEmpty 1 returnMatch),
                                inputVars = vars, callTarget = None\<rparr> g1))) (\<lambda>g2.
     andThen (case search False emitPattern (start ln) of
                None \<Rightarrow> Inr g2
              | Some emitMatch \<Rightarrow>
                  andThen (extractVariablesFromExpression (groupOrEmpty 2 emitMatch)) (\<lambda>vars.
                  Inr (addSink \<lparr>s_kind = SinkEventEmit, s_line = lineNum,
                                s_column = indexOf ln ''emit'',
                                description = ''emit '' @ groupOrEmpty 1 emitMatch @ ''(...)'',
                                inputVars = vars, callTarget = None\<rparr> g2))) (\<lambda>g3.
     foldResult (\<lambda>stateVar g.
        case newDirectAssign newRegExp stateVar of
          None \<Rightarrow> Inl SyntaxError
        | Some directAssignTest \<Rightarrow>
          andThen (if directAssignTest ln
                   then andThen (extractVariablesFromExpression ln) (\<lambda>vars.
                        Inr (addSink \<lparr>s_kind = SinkStateWrite, s_line = lineNum,
                                      s_column = indexOf ln stateVar,
                                      description = stateVar @ '' = ...'',
                                      inputVars = filter (\<lambda>v. v \<noteq> stateVar) vars,
                                      callTarget = None\<rparr> g))
                   else Inr g) (\<lambda>g4.
          case newMappingWrite newRegExp stateVar of
            None \<Rightarrow> Inl SyntaxError
          | Some mappingWriteTest \<Rightarrow>
            if mappingWriteTest ln
            then andThen (extractVariablesFromExpression ln) (\<lambda>vars.
                 Inr (addSink \<lparr>s_kind = SinkStateWrite, s_line = lineNum,
                               s_column = indexOf ln stateVar,
                               description = stateVar @ ''[...] = ...'',
                               inputVars = filter (\<lambda>v. v \<noteq> stateVar) vars,
                               callTarget = None\<rparr> g4))
            else Inr g4))
       stateVariables g3)))"

text \<open>\<^verbatim>\<open>buildFlowEdges\<close> (lines 933 to 962); \<open>mostRecentDef\<close> is its innermost loop.\<close>

definition mostRecentDef :: "DataFlowNode \<Rightarrow> DataFlowNode list \<Rightarrow> DataFlowNode option" where
  "mostRecentDef useNode defNodes =
     fold (\<lambda>defNode mostRecent.
             if n_line defNode \<le> n_line useNode
             then (case mostRecent of
                     None \<Rightarrow> Some defNode
                   | Some d \<Rightarrow> if n_line defNode > n_line d then Some defNode else mostRecent)
             else mostRecent)
          defNodes None"

definition buildFlowEdges ::
  "DataFlowEdge list \<Rightarrow> (string, DataFlowNode list) alist \<Rightarrow> (string, DataFlowNode list) alist
    \<Rightarrow> DataFlowEdge list" where
  "buildFlowEdges es defs us =
     fold (\<lambda>(v, useNodes) es.
             case DAList.lookup defs v of
               None \<Rightarrow> es
             | Some defNodes \<Rightarrow>
                 if defNodes = [] then es
                 else fold (\<lambda>useNode es.
                              case mostRecentDef useNode defNodes of
                                None \<Rightarrow> es
                              | Some d \<Rightarrow> es @ [\<lparr>e_from = d, e_to = useNode, edgeType = EdgeUse,
                                                  transformation = None\<rparr>])
                           useNodes es)
          (DAList.impl_of us) es"

text \<open>\<^verbatim>\<open>analyze\<close> (lines 505 to 546); \<open>analyzeLine\<close> is the body of its loop. The field names
  are the elements of the \<^verbatim>\<open>Set\<close> in insertion order, and \<open>newRegExp\<close> is the constructor that
  \<open>extractSinks\<close> calls.\<close>

definition emptyGraph :: DataFlowGraph where
  "emptyGraph = \<lparr>nodes = [], edges = [], sinks = [], definitions = DAList.empty, uses = DAList.empty\<rparr>"

definition analyzeLine ::
  "regExpConstructor \<Rightarrow> string list \<Rightarrow> nat \<Rightarrow> string \<Rightarrow> DataFlowGraph \<Rightarrow> failure + DataFlowGraph" where
  "analyzeLine newRegExp stateVariables lineNum ln g =
     andThen (extractLocalDeclarations ln lineNum stateVariables g) (\<lambda>g1.
     andThen (extractAssignments ln lineNum stateVariables g1) (\<lambda>g2.
     andThen (extractUses ln lineNum stateVariables g2) (\<lambda>g3.
     extractSinks newRegExp ln lineNum stateVariables g3)))"

definition analyze :: "regExpConstructor \<Rightarrow> FunctionInfo \<Rightarrow> string list \<Rightarrow> failure + DataFlowGraph" where
  "analyze newRegExp fi stateVariables =
     (let lines = splitOn CHR 0x0A (fullSource fi);
          g0 = extractParameterDefinitions (parameters fi) (startLine fi) emptyGraph
      in andThen (foldResult (\<lambda>(i, ln) g. analyzeLine newRegExp stateVariables (startLine fi + i) ln g)
                    (zip [0..<length lines] lines) g0) (\<lambda>g.
         Inr (g\<lparr>edges := buildFlowEdges (edges g) (definitions g) (uses g)\<rparr>)))"


subsection \<open>Transport form\<close>

text \<open>\<^verbatim>\<open>serializeGraph\<close> (lines 1216 to 1230) replaces the two \<^verbatim>\<open>Map\<close>s by the arrays of
  their entries. The webview rebuilds them in \<^verbatim>\<open>window.initDataFlow\<close>
  (\<^verbatim>\<open>src/renderer/dataFlowVisualizer.ts\<close>, lines 23 to 33) with \<^verbatim>\<open>new Map(entries)\<close>, which
  sets the entries in order.\<close>

record SerializedGraph =
  sg_nodes :: "DataFlowNode list"
  sg_edges :: "DataFlowEdge list"
  sg_sinks :: "SinkInfo list"
  sg_definitions :: "(string \<times> DataFlowNode list) list"
  sg_uses :: "(string \<times> DataFlowNode list) list"

definition serializeGraph :: "DataFlowGraph \<Rightarrow> SerializedGraph" where
  "serializeGraph graph =
     \<lparr>sg_nodes = nodes graph, sg_edges = edges graph, sg_sinks = sinks graph,
      sg_definitions = DAList.impl_of (definitions graph),
      sg_uses = DAList.impl_of (uses graph)\<rparr>"

definition newMap :: "('k \<times> 'v) list \<Rightarrow> ('k, 'v) alist" where
  "newMap entries = fold (\<lambda>(k, v) m. DAList.update k v m) entries DAList.empty"

definition initDataFlow :: "SerializedGraph \<Rightarrow> DataFlowGraph" where
  "initDataFlow graphData =
     \<lparr>nodes = sg_nodes graphData, edges = sg_edges graphData, sinks = sg_sinks graphData,
      definitions = newMap (sg_definitions graphData), uses = newMap (sg_uses graphData)\<rparr>"


section \<open>Widening the directives of a context type\<close>

text \<open>The workspace in which every declaration named \<open>ctx\<close> carries the additional
  using-directives \<open>extra\<close> after its own, all else unchanged.\<close>

lift_definition mapValues :: "('v \<Rightarrow> 'w) \<Rightarrow> ('k, 'v) alist \<Rightarrow> ('k, 'w) alist"
  is "\<lambda>f xs. map (\<lambda>(k, v). (k, f v)) xs"
  by (simp add: o_def split_def)

definition widenContract :: "string \<Rightarrow> UsingDirective list \<Rightarrow> ContractInfo \<Rightarrow> ContractInfo" where
  "widenContract ctx extra c =
     (if c_name c = ctx then c\<lparr>usingDirectives := usingDirectives c @ extra\<rparr> else c)"

definition widenDirectives ::
  "string \<Rightarrow> UsingDirective list \<Rightarrow> (string, ParsedFile) alist \<Rightarrow> (string, ParsedFile) alist" where
  "widenDirectives ctx extra ws =
     mapValues (\<lambda>parsedFile. parsedFile\<lparr>contracts := map (widenContract ctx extra) (contracts parsedFile)\<rparr>) ws"

text \<open>The declarations of a workspace, in the order in which the first pass reads them.\<close>

definition allContracts :: "(string, ParsedFile) alist \<Rightarrow> ContractInfo list" where
  "allContracts ws = concat (map (\<lambda>(path, parsedFile). contracts parsedFile) (DAList.impl_of ws))"


section \<open>Predicates of the statements\<close>

text \<open>A chain is well formed for \<open>T\<close> when it starts with \<open>T\<close> and repeats no name.\<close>

definition chainOk :: "string \<Rightarrow> string list \<Rightarrow> bool" where
  "chainOk T chain \<longleftrightarrow> (\<exists>ys. chain = T # ys) \<and> distinct chain"

text \<open>An implementation result is sound when it names a type of the contract map that is no
  interface and a function of that type, of the requested name, with a body.\<close>

definition implOk :: "Resolver \<Rightarrow> string \<Rightarrow> ImplementationInfo \<Rightarrow> bool" where
  "implOk r m impl \<longleftrightarrow>
     (\<exists>contract. DAList.lookup (contractMap r) (contractName impl) = Some contract
        \<and> kind contract \<noteq> Interface \<and> contractKind impl = kind contract
        \<and> functionInfo impl \<in> set (c_functions contract)
        \<and> f_name (functionInfo impl) = m \<and> hasBody (functionInfo impl))"

text \<open>An index is well formed for the flag \<open>b\<close> when every node of the list of a key has that
  definition flag and the key as name; before the use edges are built no edge is a use edge.\<close>

definition indexOk :: "bool \<Rightarrow> (string, DataFlowNode list) alist \<Rightarrow> bool" where
  "indexOk b m \<longleftrightarrow> (\<forall>k ns n. DAList.lookup m k = Some ns \<longrightarrow> n \<in> set ns \<longrightarrow> isDefinition n = b \<and> varName n = k)"

definition graphOk :: "DataFlowGraph \<Rightarrow> bool" where
  "graphOk g \<longleftrightarrow> indexOk True (definitions g) \<and> indexOk False (uses g)
     \<and> (\<forall>e \<in> set (edges g). edgeType e \<noteq> EdgeUse)"

text \<open>The edge that \<^verbatim>\<open>buildFlowEdges\<close> pushes.\<close>

definition useEdge :: "DataFlowNode \<Rightarrow> DataFlowNode \<Rightarrow> DataFlowEdge" where
  "useEdge d u = \<lparr>e_from = d, e_to = u, edgeType = EdgeUse, transformation = None\<rparr>"



section \<open>Auxiliary notions of the proofs\<close>

text \<open>The three passes of \<open>buildInheritanceGraph\<close>, each on the one map it changes.\<close>

definition setDirectives :: "ContractInfo \<Rightarrow> (string, UsingDirective list) alist \<Rightarrow> (string, UsingDirective list) alist" where
  "setDirectives c m = (if usingDirectives c \<noteq> [] then DAList.update (c_name c) (usingDirectives c) m else m)"

definition inheritorsStep :: "string \<times> ContractInfo \<Rightarrow> (string, string list) alist \<Rightarrow> (string, string list) alist" where
  "inheritorsStep = (\<lambda>(n, contract) ib. fold (\<lambda>baseName ib. addInheritor baseName n ib) (baseContracts contract) ib)"

text \<open>A lower bound of the number of characters that a match of an expression consumes.\<close>

fun minLen :: "regex \<Rightarrow> nat" where
  "minLen (Chars neg rs) = 1"
| "minLen Eps = 0"
| "minLen (Seq a b) = minLen a + minLen b"
| "minLen (Alt a b) = min (minLen a) (minLen b)"
| "minLen (Star a) = 0"
| "minLen (Group n a) = minLen a"
| "minLen WordBoundary = 0"
| "minLen Start = 0"
| "minLen End = 0"
| "minLen (NotFollowedBy a) = 0"

text \<open>A library offers a method when \<open>findLibraryMethods\<close> returns a result for it.\<close>

definition offers :: "Resolver \<Rightarrow> string \<Rightarrow> string \<Rightarrow> bool" where
  "offers r m lib \<longleftrightarrow>
     (case DAList.lookup (contractMap r) lib of
        None \<Rightarrow> False
      | Some l \<Rightarrow> kind l = Library \<and>
          (case find (\<lambda>f. f_name f = m) (c_functions l) of None \<Rightarrow> False | Some f \<Rightarrow> hasBody f))"

definition libsOf :: "(string, string list) alist \<Rightarrow> string \<Rightarrow> string list" where
  "libsOf t T = (case DAList.lookup t T of Some libs \<Rightarrow> libs | None \<Rightarrow> [])"

definition dirsFor :: "Resolver \<Rightarrow> string \<Rightarrow> UsingDirective list" where
  "dirsFor r ctx = (case DAList.lookup (contractUsingDirectives r) ctx of None \<Rightarrow> [] | Some ds \<Rightarrow> ds)"


text \<open>A result of \<open>findLibraryMethods\<close> as the source intends it.\<close>

definition libraryResult :: "Resolver \<Rightarrow> string \<Rightarrow> ImplementationInfo \<Rightarrow> bool" where
  "libraryResult r m impl \<longleftrightarrow>
     contractKind impl = Library \<and> f_name (functionInfo impl) = m
       \<and> hasBody (functionInfo impl) \<and> offers r m (contractName impl)"


section \<open>Example workspaces\<close>

text \<open>Two contracts that declare each other as base.\<close>

definition contractA :: ContractInfo where
  "contractA = \<lparr>c_name = ''A'', kind = Contract, baseContracts = [''B''], usingDirectives = [],
     c_functions = [], c_filePath = ''Cycle.sol''\<rparr>"

definition contractB :: ContractInfo where
  "contractB = \<lparr>c_name = ''B'', kind = Contract, baseContracts = [''A''], usingDirectives = [],
     c_functions = [], c_filePath = ''Cycle.sol''\<rparr>"

definition cyclicWorkspace :: "(string, ParsedFile) alist" where
  "cyclicWorkspace = DAList.update ''Cycle.sol'' \<lparr>contracts = [contractA, contractB]\<rparr> DAList.empty"

text \<open>Diamond inheritance: \<^verbatim>\<open>Top is Left, Right\<close>, and both inherit \<^verbatim>\<open>Base\<close>.\<close>

definition mkContract :: "string \<Rightarrow> ContractKind \<Rightarrow> string list \<Rightarrow> FunctionInfo list \<Rightarrow> ContractInfo" where
  "mkContract n k bases fs = \<lparr>c_name = n, kind = k, baseContracts = bases, usingDirectives = [],
     c_functions = fs, c_filePath = ''Workspace.sol''\<rparr>"

definition diamondWorkspace :: "(string, ParsedFile) alist" where
  "diamondWorkspace = DAList.update ''Diamond.sol''
     \<lparr>contracts = [mkContract ''Base'' Contract [] [], mkContract ''Left'' Contract [''Base''] [],
                   mkContract ''Right'' Contract [''Base''] [],
                   mkContract ''Top'' Contract [''Left'', ''Right''] []]\<rparr> DAList.empty"

definition exampleFunction :: FunctionInfo where
  "exampleFunction = \<lparr>f_name = ''f'',
     parameters = [\<lparr>p_name = ''amount_'', p_typeName = ''uint256''\<rparr>],
     body = ''{ balanceOf_[msg.sender] = amount_; }'',
     fullSource = ''function f(uint256 amount_) public { balanceOf_[msg.sender] = amount_; }'',
     startLine = 1\<rparr>"


text \<open>An interface, a contract that implements its method, and a contract that inherits the
  implementation.\<close>

definition withdrawDecl :: FunctionInfo where
  "withdrawDecl = \<lparr>f_name = ''withdraw'', parameters = [\<lparr>p_name = ''amount'', p_typeName = ''uint256''\<rparr>],
     body = '''', fullSource = ''function withdraw(uint256 amount) external;'', startLine = 2\<rparr>"

definition withdrawImpl :: FunctionInfo where
  "withdrawImpl = \<lparr>f_name = ''withdraw'', parameters = [\<lparr>p_name = ''amount'', p_typeName = ''uint256''\<rparr>],
     body = ''{ total -= amount; }'',
     fullSource = ''function withdraw(uint256 amount) external { total -= amount; }'', startLine = 6\<rparr>"

definition vaultWorkspace :: "(string, ParsedFile) alist" where
  "vaultWorkspace = DAList.update ''Vault.sol''
     \<lparr>contracts = [mkContract ''IVault'' Interface [] [withdrawDecl],
                   mkContract ''TypeX'' Contract [''IVault''] [withdrawImpl],
                   mkContract ''Child'' Contract [''TypeX''] []]\<rparr> DAList.empty"

definition typeXImpl :: ImplementationInfo where
  "typeXImpl = \<lparr>contractName = ''TypeX'', contractKind = Contract, functionInfo = withdrawImpl,
     filePath = ''Workspace.sol'', isInherited = False, inheritanceChain = [''TypeX'', ''IVault'']\<rparr>"

definition childImpl :: ImplementationInfo where
  "childImpl = \<lparr>contractName = ''TypeX'', contractKind = Contract, functionInfo = withdrawImpl,
     filePath = ''Workspace.sol'', isInherited = True,
     inheritanceChain = [''Child'', ''TypeX'', ''IVault'']\<rparr>"

text \<open>A library attached twice in one contract, to a type and to every type.\<close>

definition methodM :: FunctionInfo where
  "methodM = \<lparr>f_name = ''m'', parameters = [], body = ''{ return; }'',
     fullSource = ''function m() internal { return; }'', startLine = 2\<rparr>"

definition libraryL :: ContractInfo where
  "libraryL = mkContract ''L'' Library [] [methodM]"

definition contractC :: "UsingDirective list \<Rightarrow> ContractInfo" where
  "contractC directives = (mkContract ''C'' Contract [] [])\<lparr>usingDirectives := directives\<rparr>"

definition usingLforT :: UsingDirective where
  "usingLforT = \<lparr>libraryName = ''L'', forType = ''T'', isGlobal = False\<rparr>"

definition usingLforAll :: UsingDirective where
  "usingLforAll = \<lparr>libraryName = ''L'', forType = ''*'', isGlobal = False\<rparr>"

definition twiceAttachedWorkspace :: "(string, ParsedFile) alist" where
  "twiceAttachedWorkspace = DAList.update ''C.sol''
     \<lparr>contracts = [libraryL, contractC [usingLforT, usingLforAll]]\<rparr> DAList.empty"

text \<open>Three types that define \<^verbatim>\<open>m\<close>, none related to the queried type, and a context
  contract without directives.\<close>

definition fallbackWorkspace :: "(string, ParsedFile) alist" where
  "fallbackWorkspace = DAList.update ''C.sol''
     \<lparr>contracts = [libraryL, mkContract ''A'' Contract [] [methodM], mkContract ''B'' Contract [] [methodM],
                   contractC []]\<rparr> DAList.empty"


text \<open>A second library, attached to \<open>T\<close> by the additional directive.\<close>

definition libraryL2 :: ContractInfo where
  "libraryL2 = mkContract ''L2'' Library [] [methodM]"

definition usingL2forT :: UsingDirective where
  "usingL2forT = \<lparr>libraryName = ''L2'', forType = ''T'', isGlobal = False\<rparr>"

definition usingLforX :: UsingDirective where
  "usingLforX = \<lparr>libraryName = ''L'', forType = ''X'', isGlobal = False\<rparr>"

definition attachedWorkspace :: "(string, ParsedFile) alist" where
  "attachedWorkspace = DAList.update ''C.sol''
     \<lparr>contracts = [libraryL, libraryL2, contractC [usingLforT]]\<rparr> DAList.empty"

definition libraryLImpl :: ImplementationInfo where
  "libraryLImpl = \<lparr>contractName = ''L'', contractKind = Library, functionInfo = methodM,
     filePath = ''Workspace.sol'', isInherited = False, inheritanceChain = [''L'']\<rparr>"

text \<open>The context contract declared twice, the first time with the same directive twice.\<close>

definition twoDeclarationsWorkspace :: "(string, ParsedFile) alist" where
  "twoDeclarationsWorkspace = DAList.update ''C.sol''
     \<lparr>contracts = [libraryL, contractC [usingLforT, usingLforT], contractC []]\<rparr> DAList.empty"

text \<open>The graph of the example function: the nodes in the order of their creation.\<close>

definition amountParam :: DataFlowNode where
  "amountParam = \<lparr>varName = ''amount_'', n_kind = KindParameter, n_line = 1, n_column = 0,
     isDefinition = True, n_typeName = Some ''uint256'', defiTag = Some TokenAmount\<rparr>"

definition amountDecl :: DataFlowNode where
  "amountDecl = \<lparr>varName = ''amount_'', n_kind = KindLocal, n_line = 1, n_column = 11,
     isDefinition = True, n_typeName = Some ''uint256'', defiTag = Some TokenAmount\<rparr>"

definition balanceWrite :: DataFlowNode where
  "balanceWrite = \<lparr>varName = ''balanceOf_'', n_kind = KindState, n_line = 1, n_column = 37,
     isDefinition = True, n_typeName = None, defiTag = None\<rparr>"

definition amountUse :: DataFlowNode where
  "amountUse = \<lparr>varName = ''amount_'', n_kind = KindParameter, n_line = 1, n_column = 19,
     isDefinition = False, n_typeName = None, defiTag = Some TokenAmount\<rparr>"

definition balanceUse :: DataFlowNode where
  "balanceUse = \<lparr>varName = ''balanceOf_'', n_kind = KindState, n_line = 1, n_column = 37,
     isDefinition = False, n_typeName = None, defiTag = Some Balance\<rparr>"

definition senderUse :: DataFlowNode where
  "senderUse = \<lparr>varName = ''msg.sender'', n_kind = KindMsg, n_line = 1, n_column = 48,
     isDefinition = False, n_typeName = None, defiTag = Some MsgSender\<rparr>"

definition stateWriteSink :: SinkInfo where
  "stateWriteSink = \<lparr>s_kind = SinkStateWrite, s_line = 1, s_column = 37,
     description = ''balanceOf_[...] = ...'',
     inputVars = [''function'', ''f'', ''uint256'', ''amount_'', ''sender''], callTarget = None\<rparr>"

definition exampleGraph :: DataFlowGraph where
  "exampleGraph =
     \<lparr>nodes = [amountParam, amountDecl, balanceWrite, amountUse, balanceUse, senderUse],
      edges = [useEdge amountParam amountUse],
      sinks = [stateWriteSink],
      definitions = DAList.update ''amount_'' [amountParam, amountDecl] DAList.empty,
      uses = DAList.update ''msg.sender'' [senderUse]
               (DAList.update ''balanceOf_'' [balanceUse]
                 (DAList.update ''amount_'' [amountUse] DAList.empty))\<rparr>"


section \<open>Inheritance chains\<close>

lemma lookup_in_keys:
  "DAList.lookup m k = Some v \<Longrightarrow> k \<in> fst ` set (DAList.impl_of m)"
  by transfer (auto dest: map_of_SomeD intro: rev_image_eqI)

lemma fold_invariant:
  "Q a \<Longrightarrow> (\<And>x a. x \<in> set xs \<Longrightarrow> Q a \<Longrightarrow> Q (f x a)) \<Longrightarrow> Q (fold f xs a)"
  by (induction xs arbitrary: a) auto

lemma pushNew_distinct: "distinct chain \<Longrightarrow> distinct (pushNew xs chain)"
  unfolding pushNew_def by (induction xs arbitrary: chain) auto

lemma pushNew_prefix: "\<exists>ys. pushNew xs chain = chain @ ys"
  unfolding pushNew_def
proof (induction xs arbitrary: chain)
  case Nil
  show ?case by simp
next
  case (Cons x xs)
  show ?case using Cons.IH[of "chain @ [x]"] Cons.IH[of chain] by auto
qed

lemma pushNew_chainOk: "chainOk T chain \<Longrightarrow> chainOk T (pushNew xs chain)"
  using pushNew_prefix[of xs chain] pushNew_distinct[of chain xs]
  by (auto simp: chainOk_def)

lemma computeInheritanceChain_chainOk:
  assumes nv: "T \<notin> set visited"
  shows "chainOk T (computeInheritanceChain cm T visited)"
proof (cases "DAList.lookup cm T")
  case None
  then show ?thesis using nv by (subst computeInheritanceChain.simps) (simp add: chainOk_def)
next
  case (Some c)
  have "chainOk T (fold (\<lambda>baseName chain.
          pushNew (computeInheritanceChain cm baseName (set_add T visited)) chain)
        (baseContracts c) [T])"
    by (rule fold_invariant) (simp_all add: chainOk_def[of T "[T]"] pushNew_chainOk)
  then show ?thesis using nv Some by (subst computeInheritanceChain.simps) simp
qed

lemma thirdPass_fold_contractMap:
  "contractMap (fold (\<lambda>(n, contract) r.
       r\<lparr>inheritanceChains :=
           DAList.update n (computeInheritanceChain (contractMap r) n []) (inheritanceChains r)\<rparr>) xs r)
   = contractMap r"
  by (induction xs arbitrary: r) auto

lemma thirdPass_fold_chains:
  "DAList.lookup (inheritanceChains (fold (\<lambda>(n, contract) r.
       r\<lparr>inheritanceChains :=
           DAList.update n (computeInheritanceChain (contractMap r) n []) (inheritanceChains r)\<rparr>) xs r)) T
   = (if T \<in> fst ` set xs then Some (computeInheritanceChain (contractMap r) T [])
      else DAList.lookup (inheritanceChains r) T)"
proof (induction xs arbitrary: r rule: rev_induct)
  case Nil
  show ?case by simp
next
  case (snoc x xs)
  show ?case using snoc.IH[of r]
    by (cases x) (auto simp: thirdPass_fold_contractMap DAList.lookup_update)
qed

lemma contractMap_thirdPass [simp]: "contractMap (thirdPass r) = contractMap r"
  by (simp add: thirdPass_def thirdPass_fold_contractMap)

lemma chains_thirdPass:
  "DAList.lookup (contractMap r) T = Some c \<Longrightarrow>
   DAList.lookup (inheritanceChains (thirdPass r)) T = Some (computeInheritanceChain (contractMap r) T [])"
  by (simp add: thirdPass_def thirdPass_fold_chains lookup_in_keys)

lemma chains_build:
  "DAList.lookup (contractMap (buildInheritanceGraph ws)) T = Some c \<Longrightarrow>
   DAList.lookup (inheritanceChains (buildInheritanceGraph ws)) T
     = Some (computeInheritanceChain (contractMap (buildInheritanceGraph ws)) T [])"
  unfolding buildInheritanceGraph_def
  using chains_thirdPass[of "secondPass (firstPass ws cleared)" T c] by simp

text \<open>
  Claim C3. After \<open>buildInheritanceGraph\<close>, every type \<open>T\<close> of the contract map has a
  computed inheritance chain; \<open>T\<close> is its element at position 0 and occurs in it exactly once.
\<close>

theorem chain_self_first_once:
  assumes "DAList.lookup (contractMap (buildInheritanceGraph ws)) T = Some c"
  shows "\<exists>chain. DAList.lookup (inheritanceChains (buildInheritanceGraph ws)) T = Some chain
      \<and> chain \<noteq> [] \<and> chain ! 0 = T \<and> count_list chain T = 1"
proof -
  let ?ch = "computeInheritanceChain (contractMap (buildInheritanceGraph ws)) T []"
  have "chainOk T ?ch" by (rule computeInheritanceChain_chainOk) simp
  then obtain ys where ys: "?ch = T # ys" and d: "distinct ?ch" by (auto simp: chainOk_def)
  have "count_list ?ch T = 1" using d ys by (simp add: count_list_0_iff)
  then show ?thesis using chains_build[OF assms] ys by auto
qed

theorem chain_self_first_once_witness:
  "DAList.lookup (contractMap (buildInheritanceGraph diamondWorkspace)) ''Top''
     = Some (mkContract ''Top'' Contract [''Left'', ''Right''] [])
   \<and> DAList.lookup (inheritanceChains (buildInheritanceGraph diamondWorkspace)) ''Top''
     = Some [''Top'', ''Left'', ''Base'', ''Right'']
   \<and> (\<exists>chain. DAList.lookup (inheritanceChains (buildInheritanceGraph diamondWorkspace)) ''Top'' = Some chain
      \<and> chain \<noteq> [] \<and> chain ! 0 = ''Top'' \<and> count_list chain ''Top'' = 1)"
proof -
  have h: "DAList.lookup (contractMap (buildInheritanceGraph diamondWorkspace)) ''Top''
     = Some (mkContract ''Top'' Contract [''Left'', ''Right''] [])"
    by code_simp
  have v: "DAList.lookup (inheritanceChains (buildInheritanceGraph diamondWorkspace)) ''Top''
     = Some [''Top'', ''Left'', ''Base'', ''Right'']"
    by code_simp
  show ?thesis using h v chain_self_first_once[OF h] by simp
qed

text \<open>
  Claim C4. When two types of the workspace declare each other as base, \<open>buildInheritanceGraph\<close>
  (a total function: the recursion of \<open>computeInheritanceChain\<close> is proved to terminate on
  every contract map) yields for both a chain, a finite list without repeated element.
\<close>

theorem cyclic_chains_distinct:
  assumes "DAList.lookup (contractMap (buildInheritanceGraph ws)) A = Some ca"
    and "B \<in> set (baseContracts ca)"
    and "DAList.lookup (contractMap (buildInheritanceGraph ws)) B = Some cb"
    and "A \<in> set (baseContracts cb)"
  shows "\<exists>chainA chainB.
      DAList.lookup (inheritanceChains (buildInheritanceGraph ws)) A = Some chainA
    \<and> DAList.lookup (inheritanceChains (buildInheritanceGraph ws)) B = Some chainB
    \<and> distinct chainA \<and> distinct chainB"
proof -
  have "chainOk A (computeInheritanceChain (contractMap (buildInheritanceGraph ws)) A [])"
    and "chainOk B (computeInheritanceChain (contractMap (buildInheritanceGraph ws)) B [])"
    by (rule computeInheritanceChain_chainOk, simp)+
  then show ?thesis
    using chains_build[OF assms(1)] chains_build[OF assms(3)] by (simp add: chainOk_def)
qed

theorem cyclic_chains_distinct_witness:
  "DAList.lookup (contractMap (buildInheritanceGraph cyclicWorkspace)) ''A'' = Some contractA
   \<and> ''B'' \<in> set (baseContracts contractA)
   \<and> DAList.lookup (contractMap (buildInheritanceGraph cyclicWorkspace)) ''B'' = Some contractB
   \<and> ''A'' \<in> set (baseContracts contractB)
   \<and> DAList.lookup (inheritanceChains (buildInheritanceGraph cyclicWorkspace)) ''A'' = Some [''A'', ''B'']
   \<and> DAList.lookup (inheritanceChains (buildInheritanceGraph cyclicWorkspace)) ''B'' = Some [''B'', ''A'']
   \<and> (\<exists>chainA chainB.
      DAList.lookup (inheritanceChains (buildInheritanceGraph cyclicWorkspace)) ''A'' = Some chainA
    \<and> DAList.lookup (inheritanceChains (buildInheritanceGraph cyclicWorkspace)) ''B'' = Some chainB
    \<and> distinct chainA \<and> distinct chainB)"
proof -
  have a: "DAList.lookup (contractMap (buildInheritanceGraph cyclicWorkspace)) ''A'' = Some contractA"
    by code_simp
  have ab: "''B'' \<in> set (baseContracts contractA)" by (simp add: contractA_def)
  have b: "DAList.lookup (contractMap (buildInheritanceGraph cyclicWorkspace)) ''B'' = Some contractB"
    by code_simp
  have ba: "''A'' \<in> set (baseContracts contractB)" by (simp add: contractB_def)
  have va: "DAList.lookup (inheritanceChains (buildInheritanceGraph cyclicWorkspace)) ''A'' = Some [''A'', ''B'']"
    by code_simp
  have vb: "DAList.lookup (inheritanceChains (buildInheritanceGraph cyclicWorkspace)) ''B'' = Some [''B'', ''A'']"
    by code_simp
  show ?thesis using a ab b ba va vb cyclic_chains_distinct[OF a ab b ba] by simp
qed


section \<open>Implementations of interface methods\<close>

lemma findMethodInChain_sound:
  "findMethodInChain r cname m chain ns = Some impl \<Longrightarrow>
   \<exists>contract. DAList.lookup (contractMap r) (contractName impl) = Some contract
     \<and> kind contract \<noteq> Interface \<and> contractKind impl = kind contract
     \<and> functionInfo impl \<in> set (c_functions contract)
     \<and> f_name (functionInfo impl) = m \<and> hasBody (functionInfo impl)"
proof (induction ns)
  case Nil
  then show ?case by simp
next
  case (Cons n ns)
  show ?case
  proof (cases "DAList.lookup (contractMap r) n")
    case None
    then show ?thesis using Cons by simp
  next
    case (Some contract)
    show ?thesis
    proof (cases "kind contract = Interface")
      case True
      then show ?thesis using Cons Some by simp
    next
      case False
      show ?thesis
      proof (cases "find (\<lambda>f. f_name f = m) (c_functions contract)")
        case None
        then show ?thesis using Cons Some False by simp
      next
        case (Some func)
        then have fm: "f_name func = m" and fin: "func \<in> set (c_functions contract)"
          by (auto simp: find_Some_iff)
        show ?thesis
        proof (cases "hasBody func")
          case True
          then show ?thesis
            using Cons.prems \<open>DAList.lookup (contractMap r) n = Some contract\<close> False Some fm fin
            by auto
        next
          case False
          then show ?thesis
            using Cons \<open>DAList.lookup (contractMap r) n = Some contract\<close> \<open>kind contract \<noteq> Interface\<close> Some
            by simp
        qed
      qed
    qed
  qed
qed

lemma hasBody_trim: "hasBody f \<Longrightarrow> trim (body f) \<noteq> []"
  by (simp add: hasBody_def)

lemma findMethodInContract_sound:
  "findMethodInContract r cname m = Some impl \<Longrightarrow> implOk r m impl"
  unfolding findMethodInContract_def implOk_def Let_def
  by (rule findMethodInChain_sound)

lemma findImplementations_sound:
  assumes "findImplementations depth r i m = Some impls" and "impl \<in> set impls"
  shows "implOk r m impl"
proof -
  from assms(1) obtain names where
    impls: "impls = fold (\<lambda>cname implementations.
                  case DAList.lookup (contractMap r) cname of
                    None \<Rightarrow> implementations
                  | Some contract \<Rightarrow>
                      if kind contract = Interface then implementations
                      else case findMethodInContract r cname m of
                             Some impl \<Rightarrow> implementations @ [impl]
                           | None \<Rightarrow> implementations)
                names []"
    by (auto simp: findImplementations_def split: option.splits)
  have "\<forall>x \<in> set impls. implOk r m x"
    unfolding impls
    by (rule fold_invariant) (auto split: option.splits dest: findMethodInContract_sound)
  then show ?thesis using assms(2) by simp
qed


text \<open>
  Claim C5. Every result of \<open>findImplementations\<close> names a type of the contract map whose kind
  is not \<open>Interface\<close>, with that kind as \<open>contractKind\<close>, and a function of that type, of the
  requested name, whose body is non-empty, also after trimming white space.
\<close>

theorem findImplementations_never_interface_or_empty:
  assumes "findImplementations depth (buildInheritanceGraph ws) interfaceName methodName = Some impls"
    and "impl \<in> set impls"
  shows "contractKind impl \<noteq> Interface
    \<and> (\<exists>contract. DAList.lookup (contractMap (buildInheritanceGraph ws)) (contractName impl) = Some contract
          \<and> kind contract = contractKind impl
          \<and> functionInfo impl \<in> set (c_functions contract))
    \<and> f_name (functionInfo impl) = methodName
    \<and> body (functionInfo impl) \<noteq> [] \<and> trim (body (functionInfo impl)) \<noteq> []"
  using findImplementations_sound[OF assms] by (auto simp: implOk_def hasBody_def)


theorem findImplementations_never_interface_or_empty_witness:
  "findImplementations 5 (buildInheritanceGraph vaultWorkspace) ''IVault'' ''withdraw''
     = Some [typeXImpl, childImpl]
   \<and> contractKind childImpl \<noteq> Interface
   \<and> (\<exists>contract. DAList.lookup (contractMap (buildInheritanceGraph vaultWorkspace)) (contractName childImpl)
            = Some contract
          \<and> kind contract = contractKind childImpl
          \<and> functionInfo childImpl \<in> set (c_functions contract))
   \<and> f_name (functionInfo childImpl) = ''withdraw''
   \<and> body (functionInfo childImpl) \<noteq> [] \<and> trim (body (functionInfo childImpl)) \<noteq> []"
proof -
  have h: "findImplementations 5 (buildInheritanceGraph vaultWorkspace) ''IVault'' ''withdraw''
     = Some [typeXImpl, childImpl]"
    by code_simp
  have m: "childImpl \<in> set [typeXImpl, childImpl]" by simp
  show ?thesis using h findImplementations_never_interface_or_empty[OF h m] by simp
qed


section \<open>Queries on a cyclic workspace\<close>

lemma collectInheritors_cyclic:
  "n = ''A'' \<or> n = ''B'' \<Longrightarrow> collectInheritors depth (inheritedBy (buildInheritanceGraph cyclicWorkspace)) n result = None"
proof (induction depth arbitrary: n result)
  case 0 show ?case by simp
next
  case (Suc d)
  have la: "DAList.lookup (inheritedBy (buildInheritanceGraph cyclicWorkspace)) ''A'' = Some [''B'']" by code_simp
  have lb: "DAList.lookup (inheritedBy (buildInheritanceGraph cyclicWorkspace)) ''B'' = Some [''A'']" by code_simp
  show ?case using Suc.prems Suc.IH la lb by auto
qed


text \<open>
  Claim C2 (the code departs from it). On the workspace in which \<open>A\<close> and \<open>B\<close> declare each
  other as base, \<open>getImplementingContracts\<close> returns no collection for \<open>A\<close> whatever the depth
  of the call stack, and neither do \<open>findImplementations\<close> and \<open>findAllImplementations\<close>, which
  call it: \<open>collectInheritors\<close> keeps expanding \<open>A\<close> and \<open>B\<close> in turn.
\<close>

theorem cyclic_queries_do_not_return:
  "getImplementingContracts depth (buildInheritanceGraph cyclicWorkspace) ''A'' = None
   \<and> findImplementations depth (buildInheritanceGraph cyclicWorkspace) ''A'' methodName = None
   \<and> findAllImplementations depth (buildInheritanceGraph cyclicWorkspace) ''A'' methodName ctx = None"
  using collectInheritors_cyclic[of "''A''" depth "[]"]
  by (simp add: getImplementingContracts_def findImplementations_def findAllImplementations_def)


section \<open>Widening the directives\<close>

lemma fold_fold_concat:
  "fold (\<lambda>(p, pf) r. fold f (g pf) r) xs r = fold f (concat (map (\<lambda>(p, pf). g pf) xs)) r"
  by (induction xs arbitrary: r) auto

lemma firstPass_concat: "firstPass ws r = fold collectContract (allContracts ws) r"
  by (simp add: firstPass_def allContracts_def fold_fold_concat)

lemma allContracts_widen:
  "allContracts (widenDirectives ctx extra ws) = map (widenContract ctx extra) (allContracts ws)"
  by (simp add: allContracts_def widenDirectives_def mapValues.rep_eq map_concat o_def split_def)

lemma widenContract_fields [simp]:
  "c_name (widenContract ctx extra c) = c_name c"
  "kind (widenContract ctx extra c) = kind c"
  "baseContracts (widenContract ctx extra c) = baseContracts c"
  "c_functions (widenContract ctx extra c) = c_functions c"
  "c_filePath (widenContract ctx extra c) = c_filePath c"
  by (simp_all add: widenContract_def)


lemma firstPass_contractMap:
  "contractMap (fold collectContract cs r) = fold (\<lambda>c. DAList.update (c_name c) c) cs (contractMap r)"
  by (induction cs arbitrary: r) (simp_all add: collectContract_def Let_def)

lemma firstPass_typeToLibraries:
  "typeToLibraries (fold collectContract cs r)
     = fold addDirective (concat (map usingDirectives cs)) (typeToLibraries r)"
  by (induction cs arbitrary: r) (simp_all add: collectContract_def Let_def)

lemma firstPass_contractUsingDirectives:
  "contractUsingDirectives (fold collectContract cs r) = fold setDirectives cs (contractUsingDirectives r)"
  by (induction cs arbitrary: r) (simp_all add: collectContract_def Let_def setDirectives_def)

lemma firstPass_inheritedBy: "inheritedBy (fold collectContract cs r) = inheritedBy r"
  by (induction cs arbitrary: r) (simp_all add: collectContract_def Let_def)

lemma firstPass_inheritanceChains: "inheritanceChains (fold collectContract cs r) = inheritanceChains r"
  by (induction cs arbitrary: r) (simp_all add: collectContract_def Let_def)


lemma lookup_mapValues: "DAList.lookup (mapValues f m) k = map_option f (DAList.lookup m k)"
  by transfer (simp add: map_of_map)

lemma update_map_values:
  "AList.update k (f v) (map (\<lambda>(k, v). (k, f v)) xs) = map (\<lambda>(k, v). (k, f v)) (AList.update k v xs)"
  by (induction xs) auto

lemma mapValues_update: "mapValues f (DAList.update k v m) = DAList.update k (f v) (mapValues f m)"
  by transfer (simp add: update_map_values)

lemma mapValues_empty [simp]: "mapValues f DAList.empty = DAList.empty"
  by transfer simp

lemma contractMap_map:
  "(\<And>c. c_name (w c) = c_name c) \<Longrightarrow>
   fold (\<lambda>c. DAList.update (c_name c) c) (map w cs) (mapValues w m)
     = mapValues w (fold (\<lambda>c. DAList.update (c_name c) c) cs m)"
  by (induction cs arbitrary: m) (simp_all add: mapValues_update[symmetric])


lemma secondPass_inner:
  "fold (\<lambda>baseName r. r\<lparr>inheritedBy := addInheritor baseName n (inheritedBy r)\<rparr>) bs r
   = r\<lparr>inheritedBy := fold (\<lambda>baseName ib. addInheritor baseName n ib) bs (inheritedBy r)\<rparr>"
  by (induction bs arbitrary: r) simp_all

lemma secondPass_fold:
  "fold (\<lambda>(n, contract) r.
             fold (\<lambda>baseName r. r\<lparr>inheritedBy := addInheritor baseName n (inheritedBy r)\<rparr>)
                  (baseContracts contract) r) xs r
   = r\<lparr>inheritedBy := fold inheritorsStep xs (inheritedBy r)\<rparr>"
  by (induction xs arbitrary: r) (auto simp: secondPass_inner inheritorsStep_def)

lemma secondPass_alt:
  "secondPass r = r\<lparr>inheritedBy := fold inheritorsStep (DAList.impl_of (contractMap r)) (inheritedBy r)\<rparr>"
  by (simp add: secondPass_def secondPass_fold)

lemma thirdPass_fold:
  "fold (\<lambda>(n, contract) r.
             r\<lparr>inheritanceChains :=
                 DAList.update n (computeInheritanceChain (contractMap r) n []) (inheritanceChains r)\<rparr>) xs r
   = r\<lparr>inheritanceChains := fold (\<lambda>(n, contract) ch. DAList.update n (computeInheritanceChain (contractMap r) n []) ch)
        xs (inheritanceChains r)\<rparr>"
  by (induction xs arbitrary: r) auto

lemma thirdPass_alt:
  "thirdPass r = r\<lparr>inheritanceChains :=
      fold (\<lambda>(n, contract) ch. DAList.update n (computeInheritanceChain (contractMap r) n []) ch)
        (DAList.impl_of (contractMap r)) (inheritanceChains r)\<rparr>"
  by (simp add: thirdPass_def thirdPass_fold)

lemma computeInheritanceChain_mapValues:
  assumes w: "\<And>c. baseContracts (w c) = baseContracts c"
  shows "computeInheritanceChain (mapValues w cm) n visited = computeInheritanceChain cm n visited"
proof (induction cm n visited rule: computeInheritanceChain.induct)
  case (1 cm cname visited)
  show ?case
  proof (cases "cname \<in> set visited")
    case True
    then show ?thesis by (simp add: computeInheritanceChain.simps[of _ cname visited])
  next
    case False
    show ?thesis
    proof (cases "DAList.lookup cm cname")
      case None
      then show ?thesis using False
        by (simp add: computeInheritanceChain.simps[of _ cname visited] lookup_mapValues)
    next
      case (Some c)
      have "fold (\<lambda>baseName chain. pushNew (computeInheritanceChain (mapValues w cm) baseName (set_add cname visited)) chain)
              (baseContracts c) [cname]
          = fold (\<lambda>baseName chain. pushNew (computeInheritanceChain cm baseName (set_add cname visited)) chain)
              (baseContracts c) [cname]"
        by (rule fold_cong) (auto simp: "1.IH"[OF False refl refl Some])
      then show ?thesis using False Some
        by (simp add: computeInheritanceChain.simps[of _ cname visited] lookup_mapValues w)
    qed
  qed
qed



lemma build_contractMap:
  "contractMap (buildInheritanceGraph ws)
     = fold (\<lambda>c. DAList.update (c_name c) c) (allContracts ws) DAList.empty"
  by (simp add: buildInheritanceGraph_def thirdPass_alt secondPass_alt firstPass_concat
        firstPass_contractMap cleared_def)

lemma build_inheritedBy:
  "inheritedBy (buildInheritanceGraph ws)
     = fold inheritorsStep (DAList.impl_of (contractMap (buildInheritanceGraph ws))) DAList.empty"
  by (simp add: buildInheritanceGraph_def thirdPass_alt secondPass_alt firstPass_concat
        firstPass_inheritedBy cleared_def)

lemma build_inheritanceChains:
  "inheritanceChains (buildInheritanceGraph ws)
     = fold (\<lambda>(n, contract) ch. DAList.update n
               (computeInheritanceChain (contractMap (buildInheritanceGraph ws)) n []) ch)
         (DAList.impl_of (contractMap (buildInheritanceGraph ws))) DAList.empty"
  by (simp add: buildInheritanceGraph_def thirdPass_alt secondPass_alt firstPass_concat
        firstPass_inheritanceChains cleared_def)

lemma build_typeToLibraries:
  "typeToLibraries (buildInheritanceGraph ws)
     = fold addDirective (concat (map usingDirectives (allContracts ws))) DAList.empty"
  by (simp add: buildInheritanceGraph_def thirdPass_alt secondPass_alt firstPass_concat
        firstPass_typeToLibraries cleared_def)

lemma build_contractUsingDirectives:
  "contractUsingDirectives (buildInheritanceGraph ws) = fold setDirectives (allContracts ws) DAList.empty"
  by (simp add: buildInheritanceGraph_def thirdPass_alt secondPass_alt firstPass_concat
        firstPass_contractUsingDirectives cleared_def)

lemma widen_contractMap:
  "contractMap (buildInheritanceGraph (widenDirectives ctx extra ws))
     = mapValues (widenContract ctx extra) (contractMap (buildInheritanceGraph ws))"
  using contractMap_map[of "widenContract ctx extra" "allContracts ws" DAList.empty]
  by (simp add: build_contractMap allContracts_widen)

lemma fold_map_values:
  "(\<And>k v a. g (k, f v) a = g (k, v) a) \<Longrightarrow>
   fold g (map (\<lambda>(k, v). (k, f v)) xs) a = fold g xs a"
  by (induction xs arbitrary: a) auto

lemma widen_inheritedBy:
  "inheritedBy (buildInheritanceGraph (widenDirectives ctx extra ws)) = inheritedBy (buildInheritanceGraph ws)"
  unfolding build_inheritedBy widen_contractMap mapValues.rep_eq
  by (rule fold_map_values) (simp add: inheritorsStep_def)

lemma widen_inheritanceChains:
  "inheritanceChains (buildInheritanceGraph (widenDirectives ctx extra ws))
     = inheritanceChains (buildInheritanceGraph ws)"
  unfolding build_inheritanceChains widen_contractMap mapValues.rep_eq
  by (simp add: computeInheritanceChain_mapValues fold_map_values)

lemma findMethodInChain_widen:
  assumes cm: "contractMap r' = mapValues (widenContract ctx extra) (contractMap r)"
  shows "findMethodInChain r' a m chain ns = findMethodInChain r a m chain ns"
proof (induction ns)
  case Nil
  show ?case by simp
next
  case (Cons n ns)
  show ?case
    by (cases "DAList.lookup (contractMap r) n")
       (simp_all add: cm lookup_mapValues Cons.IH split: option.splits)
qed

lemma findImplementations_widen:
  assumes cm: "contractMap r' = mapValues (widenContract ctx extra) (contractMap r)"
    and ib: "inheritedBy r' = inheritedBy r"
    and ch: "inheritanceChains r' = inheritanceChains r"
  shows "findImplementations depth r' i m = findImplementations depth r i m"
proof -
  have fm: "\<And>a. findMethodInContract r' a m = findMethodInContract r a m"
    by (simp add: findMethodInContract_def ch findMethodInChain_widen[OF cm])
  have step: "(\<lambda>cname implementations.
                  case DAList.lookup (contractMap r') cname of
                    None \<Rightarrow> implementations
                  | Some contract \<Rightarrow>
                      if kind contract = Interface then implementations
                      else case findMethodInContract r' cname m of
                             Some impl \<Rightarrow> implementations @ [impl]
                           | None \<Rightarrow> implementations)
       = (\<lambda>cname implementations.
                  case DAList.lookup (contractMap r) cname of
                    None \<Rightarrow> implementations
                  | Some contract \<Rightarrow>
                      if kind contract = Interface then implementations
                      else case findMethodInContract r cname m of
                             Some impl \<Rightarrow> implementations @ [impl]
                           | None \<Rightarrow> implementations)"
    by (intro ext) (simp add: cm lookup_mapValues fm split: option.splits)
  show ?thesis
    unfolding findImplementations_def getImplementingContracts_def ib step ..
qed

lemma findContractsWithMethod_widen:
  assumes cm: "contractMap r' = mapValues (widenContract ctx extra) (contractMap r)"
    and ch: "inheritanceChains r' = inheritanceChains r"
  shows "findContractsWithMethod r' m pc = findContractsWithMethod r m pc"
  unfolding findContractsWithMethod_def cm mapValues.rep_eq ch
  by (rule fold_map_values) (simp cong: if_cong)


lemma libraryFold_length:
  "length (fold (\<lambda>libName implementations.
             case DAList.lookup (contractMap r) libName of
               None \<Rightarrow> implementations
             | Some library \<Rightarrow>
                 if kind library \<noteq> Library then implementations
                 else case find (\<lambda>f. f_name f = m) (c_functions library) of
                        None \<Rightarrow> implementations
                      | Some func \<Rightarrow>
                          if hasBody func
                          then implementations @
                            [\<lparr>contractName = libName, contractKind = Library, functionInfo = func,
                              filePath = c_filePath library, isInherited = False,
                              inheritanceChain = [libName]\<rparr>]
                          else implementations)
          libs acc)
   = length acc + length (filter (offers r m) libs)"
  by (induction libs arbitrary: acc) (auto simp: offers_def split: option.splits)

lemma findLibraryMethods_length:
  "length (findLibraryMethods r T m c) = length (filter (offers r m) (librariesToSearch r T c))"
  by (simp add: findLibraryMethods_def libraryFold_length)

lemma offers_widen:
  "contractMap r' = mapValues (widenContract ctx extra) (contractMap r) \<Longrightarrow> offers r' m = offers r m"
  by (intro ext) (simp add: offers_def lookup_mapValues split: option.splits)

lemma pushNew_Cons: "pushNew (x # xs) acc = pushNew xs (if x \<notin> set acc then acc @ [x] else acc)"
  by (simp add: pushNew_def)

lemma count_pushNew:
  "count_list (pushNew xs acc) l
     = (if l \<in> set acc then count_list acc l else if l \<in> set xs then 1 else 0)"
proof (induction xs arbitrary: acc)
  case Nil
  show ?case by (simp add: pushNew_def count_list_0_iff)
next
  case (Cons x xs)
  show ?case
    unfolding pushNew_Cons Cons.IH
    by (auto simp: count_list_0_iff)
qed

lemma set_pushNew: "set (pushNew xs acc) = set acc \<union> set xs"
  unfolding pushNew_def by (induction xs arbitrary: acc) auto

lemma count_candidates:
  "count_list (pushNew ws (pushNew gs cs)) l
     = (if l \<in> set cs then count_list cs l else if l \<in> set gs \<union> set ws then 1 else 0)"
  by (auto simp: count_pushNew set_pushNew)

lemma candidates_mono:
  assumes "set gs \<subseteq> set gs'" and "set ws \<subseteq> set ws'"
  shows "count_list (pushNew ws (pushNew gs cs)) l \<le> count_list (pushNew ws' (pushNew gs' (cs @ added))) l"
proof -
  have "l \<in> set (cs @ added) \<Longrightarrow> 1 \<le> count_list (cs @ added) l"
    using count_list_0_iff[of "cs @ added" l] by arith
  then show ?thesis
    unfolding count_candidates using assms by auto
qed

lemma count_list_filter: "count_list (filter P xs) l = (if P l then count_list xs l else 0)"
  by (induction xs) auto

lemma filter_length_mono:
  assumes "\<And>l. count_list xs l \<le> count_list ys l"
  shows "length (filter P xs) \<le> length (filter P ys)"
proof -
  have "length (filter P xs) = sum (count_list (filter P xs)) (set xs \<union> set ys)"
    by (rule sum_count_set[symmetric]) auto
  also have "\<dots> \<le> sum (count_list (filter P ys)) (set xs \<union> set ys)"
    by (rule sum_mono) (simp add: count_list_filter assms)
  also have "\<dots> = length (filter P ys)"
    by (rule sum_count_set) auto
  finally show ?thesis .
qed


lemma libsOf_addDirective:
  "set (libsOf (addDirective d t) T)
     = set (libsOf t T) \<union> (if forType d = T then {libraryName d} else {})"
  unfolding libsOf_def addDirective_def Let_def
  by (cases "DAList.lookup t (forType d)") (auto simp: DAList.lookup_update)

lemma libsOf_fold:
  "set (libsOf (fold addDirective ds t) T)
     = set (libsOf t T) \<union> {libraryName d | d. d \<in> set ds \<and> forType d = T}"
  by (induction ds arbitrary: t) (auto simp: libsOf_addDirective)

lemma librariesFor_libsOf: "librariesFor r T = libsOf (typeToLibraries r) T"
  by (simp add: librariesFor_def libsOf_def)

lemma widen_librariesFor:
  "set (librariesFor (buildInheritanceGraph ws) T)
     \<subseteq> set (librariesFor (buildInheritanceGraph (widenDirectives ctx extra ws)) T)"
proof -
  have sub: "set (concat (map usingDirectives (allContracts ws)))
      \<subseteq> set (concat (map usingDirectives (map (widenContract ctx extra) (allContracts ws))))"
    by (auto simp: widenContract_def)
  have "{libraryName d | d. d \<in> set (concat (map usingDirectives (allContracts ws))) \<and> forType d = T}
      \<subseteq> {libraryName d | d. d \<in> set (concat (map usingDirectives (map (widenContract ctx extra) (allContracts ws))))
            \<and> forType d = T}"
    using sub by blast
  then show ?thesis
    unfolding librariesFor_libsOf build_typeToLibraries libsOf_fold allContracts_widen
    by blast
qed

lemma fold_append_filter:
  "fold (\<lambda>d libs. if P d then libs @ [f d] else libs) ds acc = acc @ map f (filter P ds)"
  by (induction ds arbitrary: acc) auto

lemma contextLibraries_alt:
  "contextLibraries r T (Some ctx)
     = (if ctx = [] then []
        else map libraryName (filter (\<lambda>d. forType d = T \<or> forType d = ''*'') (dirsFor r ctx)))"
  by (simp add: contextLibraries_def dirsFor_def fold_append_filter split: option.splits)

lemma setDirectives_other:
  "ctx \<notin> c_name ` set cs \<Longrightarrow> DAList.lookup (fold setDirectives cs m) ctx = DAList.lookup m ctx"
  by (induction cs arbitrary: m) (auto simp: setDirectives_def)

lemma setDirectives_once:
  assumes "ctx \<notin> c_name ` set pre" and "ctx \<notin> c_name ` set post" and "c_name c = ctx"
  shows "DAList.lookup (fold setDirectives (pre @ c # post) DAList.empty) ctx
     = (if usingDirectives c \<noteq> [] then Some (usingDirectives c) else None)"
  using assms by (simp add: setDirectives_other) (simp add: setDirectives_def setDirectives_other)

lemma widen_dirsFor:
  assumes once: "length (filter (\<lambda>c. c_name c = ctx) (allContracts ws)) \<le> 1"
  shows "\<exists>added. dirsFor (buildInheritanceGraph (widenDirectives ctx extra ws)) ctx
            = dirsFor (buildInheritanceGraph ws) ctx @ added"
proof (cases "ctx \<in> c_name ` set (allContracts ws)")
  case False
  then have "ctx \<notin> c_name ` set (map (widenContract ctx extra) (allContracts ws))"
    by (auto simp: image_iff)
  then show ?thesis using False
    by (simp add: dirsFor_def build_contractUsingDirectives allContracts_widen setDirectives_other
          del: set_map)
next
  case True
  then obtain c where c: "c \<in> set (allContracts ws)" and n: "c_name c = ctx" by auto
  from split_list[OF c] obtain pre post where sp: "allContracts ws = pre @ c # post" by blast
  have "length (filter (\<lambda>c. c_name c = ctx) pre) + length (filter (\<lambda>c. c_name c = ctx) post) = 0"
    using once n unfolding sp by simp
  then have pre: "ctx \<notin> c_name ` set pre" and post: "ctx \<notin> c_name ` set post"
    by (auto simp: filter_empty_conv)
  have pre': "ctx \<notin> c_name ` set (map (widenContract ctx extra) pre)"
    and post': "ctx \<notin> c_name ` set (map (widenContract ctx extra) post)"
    using pre post by (auto simp: image_iff)
  have l: "DAList.lookup (contractUsingDirectives (buildInheritanceGraph ws)) ctx
     = (if usingDirectives c \<noteq> [] then Some (usingDirectives c) else None)"
    unfolding build_contractUsingDirectives sp
    by (rule setDirectives_once[OF pre post n])
  have n': "c_name (widenContract ctx extra c) = ctx" using n by simp
  have l': "DAList.lookup (contractUsingDirectives (buildInheritanceGraph (widenDirectives ctx extra ws))) ctx
     = (if usingDirectives (widenContract ctx extra c) \<noteq> []
        then Some (usingDirectives (widenContract ctx extra c)) else None)"
    unfolding build_contractUsingDirectives allContracts_widen sp map_append list.map
    by (rule setDirectives_once[OF pre' post' n'])
  have "dirsFor (buildInheritanceGraph (widenDirectives ctx extra ws)) ctx
            = dirsFor (buildInheritanceGraph ws) ctx @ extra"
    unfolding dirsFor_def l l' using n by (simp add: widenContract_def)
  then show ?thesis by blast
qed

lemma widen_findLibraryMethods:
  assumes once: "length (filter (\<lambda>c. c_name c = ctx) (allContracts ws)) \<le> 1"
  shows "length (findLibraryMethods (buildInheritanceGraph ws) T m (Some ctx))
     \<le> length (findLibraryMethods (buildInheritanceGraph (widenDirectives ctx extra ws)) T m (Some ctx))"
proof -
  let ?r = "buildInheritanceGraph ws" and ?r' = "buildInheritanceGraph (widenDirectives ctx extra ws)"
  from widen_dirsFor[OF once] obtain added where a: "dirsFor ?r' ctx = dirsFor ?r ctx @ added" by blast
  obtain added' where c: "contextLibraries ?r' T (Some ctx) = contextLibraries ?r T (Some ctx) @ added'"
    unfolding contextLibraries_alt a by (cases "ctx = []") auto
  have "\<And>l. count_list (librariesToSearch ?r T (Some ctx)) l
         \<le> count_list (librariesToSearch ?r' T (Some ctx)) l"
    unfolding librariesToSearch_def Let_def c
    by (rule candidates_mono) (rule widen_librariesFor)+
  then have "length (filter (offers ?r m) (librariesToSearch ?r T (Some ctx)))
      \<le> length (filter (offers ?r m) (librariesToSearch ?r' T (Some ctx)))"
    by (rule filter_length_mono)
  then show ?thesis
    by (simp add: findLibraryMethods_length offers_widen[OF widen_contractMap])
qed


text \<open>
  Claim C1, as stated, fails: without directives the query for \<open>T\<close> and \<open>m\<close> in the context
  \<open>C\<close> finds no library method and no implementer and returns the three results of the global
  search; once \<open>C\<close> attaches \<open>L\<close> to \<open>T\<close> the library method is found, the global search is
  not run, and one result is returned.
\<close>

theorem widening_loses_fallback_results:
  "map_option (map contractName)
     (findAllImplementations 3 (buildInheritanceGraph fallbackWorkspace) ''T'' ''m'' (Some ''C''))
     = Some [''L'', ''A'', ''B'']
   \<and> map_option (map contractName)
     (findAllImplementations 3 (buildInheritanceGraph (widenDirectives ''C'' [usingLforT] fallbackWorkspace))
        ''T'' ''m'' (Some ''C''))
     = Some [''L'']"
  by code_simp

text \<open>With two declarations of the context contract the directives of the earlier one can
  be the ones in force; widening then replaces them, and a library they name twice is found
  once.\<close>

lemma widening_with_two_declarations:
  "map_option (map contractName)
     (findAllImplementations 3 (buildInheritanceGraph twoDeclarationsWorkspace) ''T'' ''m'' (Some ''C''))
     = Some [''L'', ''L'']
   \<and> map_option (map contractName)
     (findAllImplementations 3
        (buildInheritanceGraph (widenDirectives ''C'' [usingLforX] twoDeclarationsWorkspace))
        ''T'' ''m'' (Some ''C''))
     = Some [''L'']"
  by code_simp

text \<open>
  Claim C1, amended. In a workspace that declares the context type at most once, when the
  query finds a library method or an implementer (so that its result is not the global
  search), the query on the workspace with additional directives for the context type
  returns as well, with at least as many results.
\<close>

theorem widening_keeps_found_results:
  assumes once: "length (filter (\<lambda>c. c_name c = ctx) (allContracts ws)) \<le> 1"
    and res: "findAllImplementations depth (buildInheritanceGraph ws) interfaceName methodName (Some ctx)
                = Some impls"
    and found: "findLibraryMethods (buildInheritanceGraph ws) interfaceName methodName (Some ctx) \<noteq> []
                \<or> findImplementations depth (buildInheritanceGraph ws) interfaceName methodName \<noteq> Some []"
  shows "\<exists>impls'. findAllImplementations depth (buildInheritanceGraph (widenDirectives ctx extra ws))
                      interfaceName methodName (Some ctx) = Some impls'
            \<and> length impls \<le> length impls'"
proof -
  let ?r = "buildInheritanceGraph ws" and ?r' = "buildInheritanceGraph (widenDirectives ctx extra ws)"
  from res obtain ifaces where i: "findImplementations depth ?r interfaceName methodName = Some ifaces"
    by (auto simp: findAllImplementations_def Let_def split: option.splits)
  have i': "findImplementations depth ?r' interfaceName methodName = Some ifaces"
    using i findImplementations_widen[OF widen_contractMap widen_inheritedBy widen_inheritanceChains]
    by simp
  let ?l = "findLibraryMethods ?r interfaceName methodName (Some ctx)"
  let ?l' = "findLibraryMethods ?r' interfaceName methodName (Some ctx)"
  have le: "length ?l \<le> length ?l'" by (rule widen_findLibraryMethods[OF once])
  have ne: "?l @ ifaces \<noteq> []" using found i by auto
  then have impls: "impls = ?l @ ifaces" using res i
    by (auto simp: findAllImplementations_def Let_def split: if_splits)
  have ne': "?l' @ ifaces \<noteq> []" using ne le by (cases ?l) auto
  then have "findAllImplementations depth ?r' interfaceName methodName (Some ctx) = Some (?l' @ ifaces)"
    using i' by (auto simp: findAllImplementations_def Let_def)
  then show ?thesis using impls le by simp
qed


theorem widening_keeps_found_results_witness:
  "length (filter (\<lambda>c. c_name c = ''C'') (allContracts attachedWorkspace)) \<le> 1
   \<and> findAllImplementations 3 (buildInheritanceGraph attachedWorkspace) ''T'' ''m'' (Some ''C'')
       = Some [libraryLImpl]
   \<and> findLibraryMethods (buildInheritanceGraph attachedWorkspace) ''T'' ''m'' (Some ''C'') \<noteq> []
   \<and> map_option (map contractName)
        (findAllImplementations 3
           (buildInheritanceGraph (widenDirectives ''C'' [usingL2forT] attachedWorkspace))
           ''T'' ''m'' (Some ''C''))
       = Some [''L'', ''L2'']
   \<and> (\<exists>impls'. findAllImplementations 3
           (buildInheritanceGraph (widenDirectives ''C'' [usingL2forT] attachedWorkspace))
           ''T'' ''m'' (Some ''C'') = Some impls'
         \<and> length [libraryLImpl] \<le> length impls')"
proof -
  have once: "length (filter (\<lambda>c. c_name c = ''C'') (allContracts attachedWorkspace)) \<le> 1"
    by code_simp
  have res: "findAllImplementations 3 (buildInheritanceGraph attachedWorkspace) ''T'' ''m'' (Some ''C'')
       = Some [libraryLImpl]"
    by code_simp
  have lib: "findLibraryMethods (buildInheritanceGraph attachedWorkspace) ''T'' ''m'' (Some ''C'')
       = [libraryLImpl]"
    by code_simp
  have found: "findLibraryMethods (buildInheritanceGraph attachedWorkspace) ''T'' ''m'' (Some ''C'') \<noteq> []
       \<or> findImplementations 3 (buildInheritanceGraph attachedWorkspace) ''T'' ''m'' \<noteq> Some []"
    using lib by simp
  have wide: "map_option (map contractName)
        (findAllImplementations 3
           (buildInheritanceGraph (widenDirectives ''C'' [usingL2forT] attachedWorkspace))
           ''T'' ''m'' (Some ''C''))
       = Some [''L'', ''L2'']"
    by code_simp
  show ?thesis
    using once res lib wide widening_keeps_found_results[OF once res found, of "[usingL2forT]"]
    by simp
qed


section \<open>Library candidates\<close>

lemma pushNew_distinct_filter:
  "distinct xs \<Longrightarrow> pushNew xs acc = acc @ filter (\<lambda>x. x \<notin> set acc) xs"
proof (induction xs arbitrary: acc)
  case Nil
  show ?case by (simp add: pushNew_def)
next
  case (Cons x xs)
  have ih: "\<And>acc. pushNew xs acc = acc @ filter (\<lambda>x. x \<notin> set acc) xs"
    using Cons by simp
  have nx: "x \<notin> set xs" using Cons.prems by simp
  have "filter (\<lambda>y. y \<notin> set (acc @ [x])) xs = filter (\<lambda>y. y \<notin> set acc) xs"
    by (rule filter_cong) (use nx in auto)
  then show ?case unfolding pushNew_Cons ih by simp
qed

lemma distinct_libsOf_addDirective:
  "distinct (libsOf t T) \<Longrightarrow> distinct (libsOf (addDirective d t) T)"
  unfolding libsOf_def addDirective_def Let_def
  by (cases "DAList.lookup t (forType d)") (auto simp: DAList.lookup_update)

lemma distinct_libsOf_fold:
  "distinct (libsOf t T) \<Longrightarrow> distinct (libsOf (fold addDirective ds t) T)"
  by (induction ds arbitrary: t) (simp_all add: distinct_libsOf_addDirective)

lemma distinct_librariesFor: "distinct (librariesFor (buildInheritanceGraph ws) T)"
  unfolding librariesFor_libsOf build_typeToLibraries
  by (rule distinct_libsOf_fold) (simp add: libsOf_def)

text \<open>The candidate list in priority order: the libraries of the matching directives of the
  context, then the libraries of the global entry of the type that are not among them, then
  those of the wildcard entry that are in neither.\<close>

lemma librariesToSearch_priority:
  "librariesToSearch (buildInheritanceGraph ws) T c
     = contextLibraries (buildInheritanceGraph ws) T c
       @ filter (\<lambda>l. l \<notin> set (contextLibraries (buildInheritanceGraph ws) T c))
           (librariesFor (buildInheritanceGraph ws) T)
       @ filter (\<lambda>l. l \<notin> set (contextLibraries (buildInheritanceGraph ws) T c)
                    \<and> l \<notin> set (librariesFor (buildInheritanceGraph ws) T))
           (librariesFor (buildInheritanceGraph ws) ''*'')"
  unfolding librariesToSearch_def Let_def
  by (simp add: pushNew_distinct_filter distinct_librariesFor) (rule filter_cong, auto)

lemma libraryResult_step:
  assumes "DAList.lookup (contractMap r) lib = Some l" and "kind l = Library"
    and "find (\<lambda>f. f_name f = m) (c_functions l) = Some func" and "hasBody func"
  shows "libraryResult r m \<lparr>contractName = lib, contractKind = Library, functionInfo = func,
                              filePath = fp, isInherited = False, inheritanceChain = [lib]\<rparr>"
proof -
  have "f_name func = m" using assms(3) by (auto simp: find_Some_iff)
  then show ?thesis using assms by (simp add: libraryResult_def offers_def)
qed

text \<open>Every result of \<open>findLibraryMethods\<close> is of kind \<open>Library\<close> and names a function of the
  requested name with a body, the first of that name in a library of the contract map.\<close>

lemma findLibraryMethods_sound:
  "impl \<in> set (findLibraryMethods r T m c) \<Longrightarrow> libraryResult r m impl"
proof -
  have "\<forall>impl \<in> set (findLibraryMethods r T m c). libraryResult r m impl"
    unfolding findLibraryMethods_def
    by (rule fold_invariant) (auto split: option.splits intro: libraryResult_step)
  then show "impl \<in> set (findLibraryMethods r T m c) \<Longrightarrow> libraryResult r m impl" by blast
qed

text \<open>
  Claim C6 (the code departs from it). A contract that attaches the library \<open>L\<close> both to the
  type \<open>T\<close> and to every type has \<open>L\<close> twice in the candidate list of a query for \<open>T\<close> in its
  context, and \<open>findLibraryMethods\<close> returns the method of \<open>L\<close> twice.
\<close>

theorem library_candidate_twice:
  "librariesToSearch (buildInheritanceGraph twiceAttachedWorkspace) ''T'' (Some ''C'') = [''L'', ''L'']
   \<and> map contractName
        (findLibraryMethods (buildInheritanceGraph twiceAttachedWorkspace) ''T'' ''m'' (Some ''C''))
      = [''L'', ''L'']"
  by code_simp


section \<open>Transport form of the graph\<close>

lemma update_fresh:
  "k \<notin> fst ` set xs \<Longrightarrow> AList.update k v xs = xs @ [(k, v)]"
  by (induction xs) auto

lemma impl_of_update_fresh:
  "k \<notin> fst ` set (DAList.impl_of m) \<Longrightarrow> DAList.impl_of (DAList.update k v m) = DAList.impl_of m @ [(k, v)]"
  by transfer (rule update_fresh)

lemma fold_update_fresh:
  "distinct (map fst xs) \<Longrightarrow> fst ` set xs \<inter> fst ` set (DAList.impl_of acc) = {} \<Longrightarrow>
   DAList.impl_of (fold (\<lambda>(k, v) m. DAList.update k v m) xs acc) = DAList.impl_of acc @ xs"
proof (induction xs arbitrary: acc)
  case Nil
  show ?case by simp
next
  case (Cons x xs)
  obtain k v where x: "x = (k, v)" by (cases x)
  have fresh: "k \<notin> fst ` set (DAList.impl_of acc)" using Cons.prems(2) x by auto
  have step: "DAList.impl_of (DAList.update k v acc) = DAList.impl_of acc @ [(k, v)]"
    by (rule impl_of_update_fresh[OF fresh])
  have "DAList.impl_of (fold (\<lambda>(k, v) m. DAList.update k v m) xs (DAList.update k v acc))
        = DAList.impl_of (DAList.update k v acc) @ xs"
  proof (rule Cons.IH)
    show "distinct (map fst xs)" using Cons.prems(1) by simp
    show "fst ` set xs \<inter> fst ` set (DAList.impl_of (DAList.update k v acc)) = {}"
      using Cons.prems x step by auto
  qed
  then show ?case using x step by simp
qed

lemma newMap_entries: "newMap (DAList.impl_of m) = m"
proof -
  have "DAList.impl_of (newMap (DAList.impl_of m)) = DAList.impl_of m"
    unfolding newMap_def
    using fold_update_fresh[of "DAList.impl_of m" DAList.empty]
    by (simp add: DAList.empty.rep_eq)
  then show ?thesis by (simp add: alist_eq_iff)
qed


text \<open>
  Claim C9. Rebuilding the indices from the transport form of a graph gives back the entries
  of the \<open>definitions\<close> and \<open>uses\<close> indices as they were: the same keys in the same order, each
  with the same list of nodes. The whole graph is given back.
\<close>

theorem serialize_roundtrip:
  "DAList.impl_of (definitions (initDataFlow (serializeGraph graph))) = DAList.impl_of (definitions graph)
   \<and> DAList.impl_of (uses (initDataFlow (serializeGraph graph))) = DAList.impl_of (uses graph)
   \<and> initDataFlow (serializeGraph graph) = graph"
  by (simp add: initDataFlow_def serializeGraph_def newMap_entries)



section \<open>Definition and use indices\<close>

lemma pushTo_ok:
  "indexOk b m \<Longrightarrow> isDefinition node = b \<Longrightarrow> indexOk b (pushTo (varName node) node m)"
  unfolding indexOk_def pushTo_def Let_def
  by (auto simp: DAList.lookup_update split: option.splits if_splits)

lemma addDefinition_ok: "graphOk g \<Longrightarrow> isDefinition node \<Longrightarrow> graphOk (addDefinition node g)"
  by (simp add: graphOk_def addDefinition_def pushTo_ok)

lemma addUse_ok: "graphOk g \<Longrightarrow> \<not> isDefinition node \<Longrightarrow> graphOk (addUse node g)"
  by (simp add: graphOk_def addUse_def pushTo_ok)

lemma addSink_ok: "graphOk g \<Longrightarrow> graphOk (addSink s g)"
  by (simp add: graphOk_def addSink_def)

lemma graphOk_nodes: "graphOk g \<Longrightarrow> graphOk (g\<lparr>nodes := ns\<rparr>)"
  by (simp add: graphOk_def)

lemma graphOk_edges: "graphOk g \<Longrightarrow> edgeType e \<noteq> EdgeUse \<Longrightarrow> graphOk (g\<lparr>edges := edges g @ [e]\<rparr>)"
  by (simp add: graphOk_def)

lemma emptyGraph_ok: "graphOk emptyGraph"
  by (simp add: graphOk_def emptyGraph_def indexOk_def)

lemma andThen_Inr [simp]: "andThen x f = Inr y \<longleftrightarrow> (\<exists>a. x = Inr a \<and> f a = Inr y)"
  by (cases x) (auto simp: andThen_def)

lemma foldResult_invariant:
  "foldResult f xs b = Inr b' \<Longrightarrow> Q b \<Longrightarrow>
   (\<And>x a a'. x \<in> set xs \<Longrightarrow> Q a \<Longrightarrow> f x a = Inr a' \<Longrightarrow> Q a') \<Longrightarrow> Q b'"
proof (induction xs arbitrary: b)
  case Nil
  then show ?case by simp
next
  case (Cons x xs)
  from Cons.prems(1) obtain b1 where b1: "f x b = Inr b1" and r: "foldResult f xs b1 = Inr b'"
    by (auto split: sum.splits)
  have q1: "Q b1" using Cons.prems(3)[of x b b1] Cons.prems(2) b1 by simp
  show ?case
  proof (rule Cons.IH[OF r q1])
    fix y a a'
    assume "y \<in> set xs" "Q a" "f y a = Inr a'"
    then show "Q a'" using Cons.prems(3)[of y a a'] by simp
  qed
qed

lemma extractParameterDefinitions_ok:
  "graphOk g \<Longrightarrow> graphOk (extractParameterDefinitions ps l g)"
  unfolding extractParameterDefinitions_def
  by (rule fold_invariant) (auto intro: addDefinition_ok)

lemma extractLocalDeclarations_ok:
  assumes "extractLocalDeclarations ln l sv g = Inr g'" and "graphOk g"
  shows "graphOk g'"
proof -
  from assms(1) obtain ms where ms: "execAll False declPattern ln = Inr ms"
    by (auto simp: extractLocalDeclarations_def split: sum.splits)
  define g1 where "g1 = fold (\<lambda>m g.
                      let ty = groupOrEmpty 1 m; v = groupOrEmpty 2 m
                      in if v \<in> set sv then g
                         else addDefinition
                                \<lparr>varName = v, n_kind = KindLocal, n_line = l,
                                  n_column = index ln m, isDefinition = True, n_typeName = Some ty,
                                  defiTag = inferDefiTag v (Some ty)\<rparr> g)
                    ms g"
  have ok1: "graphOk g1" unfolding g1_def
    by (rule fold_invariant) (auto simp: Let_def assms(2) intro: addDefinition_ok)
  show ?thesis
  proof (cases "search False tuplePattern (start ln)")
    case None
    then show ?thesis using assms(1) ms ok1 by (simp add: extractLocalDeclarations_def g1_def)
  next
    case (Some tm)
    have "graphOk (fold (\<lambda>varDecl g.
                         let parts = splitWhiteSpace varDecl []; v = last parts
                         in if v \<noteq> [] \<and> test False (seqs [Start, ident, End]) v
                               \<and> v \<notin> set sv
                            then addDefinition
                                   \<lparr>varName = v, n_kind = KindLocal, n_line = l,
                                     n_column = indexOf ln v, isDefinition = True, n_typeName = None,
                                     defiTag = inferDefiTag v
                                       (if length parts > 1 then Some (hd parts) else None)\<rparr> g
                            else g)
                       (map trim (splitOn CHR '','' (groupOrEmpty 1 tm))) g1)"
      by (rule fold_invariant) (auto simp: Let_def ok1 intro: addDefinition_ok)
    then show ?thesis using assms(1) ms Some by (simp add: extractLocalDeclarations_def g1_def)
  qed
qed

lemma extractAssignments_ok:
  assumes "extractAssignments ln l sv g = Inr g'" and "graphOk g"
  shows "graphOk g'"
proof -
  from assms(1) obtain ms g2 ms2 where
    g2: "foldResult (\<lambda>m g.
                let targetVar = groupOrEmpty 1 m;
                    operator = groupOrEmpty 2 m;
                    expression = groupOrEmpty 3 m;
                    isStateWrite = (targetVar \<in> set sv);
                    targetNode = \<lparr>varName = targetVar,
                                   n_kind = (if isStateWrite then KindState else KindLocal),
                                   n_line = l, n_column = index ln m, isDefinition = True,
                                   n_typeName = None, defiTag = inferDefiTag targetVar None\<rparr>;
                    g1 = (if \<not> isStateWrite
                          then (case DAList.lookup (definitions g) targetVar of
                                  None \<Rightarrow> addDefinition targetNode g
                                | Some existingDefs \<Rightarrow>
                                    if existingDefs = [] then addDefinition targetNode g else g)
                          else g)
                in andThen (extractVariablesFromExpression expression) (\<lambda>rhsVars.
                   Inr (fold (\<lambda>sourceVar g.
                          if includes_str expression (sourceVar @ ''('') then g
                          else case DAList.lookup (definitions g) sourceVar of
                                 None \<Rightarrow> g
                               | Some sourceDefs \<Rightarrow>
                                   if sourceDefs = [] then g
                                   else g\<lparr>edges := edges g @
                                          [\<lparr>e_from = last sourceDefs, e_to = targetNode,
                                            edgeType = (if isStateWrite then EdgeStateWrite else EdgeAssign),
                                            transformation =
                                              (if operator \<noteq> [] then Some (operator @ ''='') else None)\<rparr>]\<rparr>)
                        rhsVars g1)))
              ms g = Inr g2"
    and g': "g' = fold (\<lambda>m g.
            let stateVar = groupOrEmpty 1 m
            in if stateVar \<in> set sv
               then g\<lparr>nodes := nodes g @
                      [\<lparr>varName = stateVar, n_kind = KindState, n_line = l,
                        n_column = index ln m, isDefinition = True, n_typeName = None,
                        defiTag = None\<rparr>]\<rparr>
               else g)
          ms2 g2"
    unfolding extractAssignments_def by auto
  have ok2: "graphOk g2"
  proof (rule foldResult_invariant[where Q = graphOk, OF g2 assms(2)], goal_cases)
    case (1 m a a')
    define targetNode where "targetNode = \<lparr>varName = groupOrEmpty 1 m,
                                   n_kind = (if groupOrEmpty 1 m \<in> set sv then KindState else KindLocal),
                                   n_line = l, n_column = index ln m, isDefinition = True,
                                   n_typeName = None, defiTag = inferDefiTag (groupOrEmpty 1 m) None\<rparr>"
    define g1 where "g1 = (if \<not> groupOrEmpty 1 m \<in> set sv
                          then (case DAList.lookup (definitions a) (groupOrEmpty 1 m) of
                                  None \<Rightarrow> addDefinition targetNode a
                                | Some existingDefs \<Rightarrow>
                                    if existingDefs = [] then addDefinition targetNode a else a)
                          else a)"
    have ok1: "graphOk g1" unfolding g1_def targetNode_def using 1(2)
      by (auto split: option.splits intro: addDefinition_ok)
    from 1(3) obtain rhsVars where a': "a' = fold (\<lambda>sourceVar g.
                          if includes_str (groupOrEmpty 3 m) (sourceVar @ ''('') then g
                          else case DAList.lookup (definitions g) sourceVar of
                                 None \<Rightarrow> g
                               | Some sourceDefs \<Rightarrow>
                                   if sourceDefs = [] then g
                                   else g\<lparr>edges := edges g @
                                          [\<lparr>e_from = last sourceDefs, e_to = targetNode,
                                            edgeType = (if groupOrEmpty 1 m \<in> set sv then EdgeStateWrite else EdgeAssign),
                                            transformation =
                                              (if groupOrEmpty 2 m \<noteq> [] then Some (groupOrEmpty 2 m @ ''='') else None)\<rparr>]\<rparr>)
                        rhsVars g1"
      unfolding Let_def g1_def targetNode_def by auto
    show ?case unfolding a'
      by (rule fold_invariant) (auto simp: ok1 split: option.splits intro!: graphOk_edges)
  qed
  show ?thesis unfolding g'
    by (rule fold_invariant) (auto simp: ok2 Let_def intro: graphOk_nodes)
qed


lemma extractSpecialGlobals_ok:
  assumes "extractSpecialGlobals ln l g = Inr g'" and "graphOk g"
  shows "graphOk g'"
proof (rule foldResult_invariant[where Q = graphOk, OF assms[unfolded extractSpecialGlobals_def]], goal_cases)
  case (1 x a a')
  obtain name k tag where x: "x = (name, k, tag)" by (cases x)
  from 1(3) obtain ms where a': "a' = fold (\<lambda>m g. addUse \<lparr>varName = name, n_kind = k, n_line = l,
                                   n_column = index ln m, isDefinition = False, n_typeName = None,
                                   defiTag = tag\<rparr> g) ms a"
    unfolding x by auto
  show ?case unfolding a'
    by (rule fold_invariant) (auto simp: 1(2) intro: addUse_ok)
qed

lemma extractUses_ok:
  assumes "extractUses ln l sv g = Inr g'" and "graphOk g"
  shows "graphOk g'"
proof -
  from assms(1) obtain ms where
    r: "extractSpecialGlobals ln l
       (fst (fold (\<lambda>m (g, seenOnLine).
          let v = groupOrEmpty 1 m; column = index ln m
          in if v \<in> set skipWordsUses \<or> v \<in> set seenOnLine then (g, seenOnLine)
             else let seen1 = seenOnLine @ [v];
                      isDefined = (DAList.lookup (definitions g) v \<noteq> None);
                      isState = (v \<in> set sv)
                  in if isDefined \<or> isState
                     then let restOfLine = drop (nat column + length v) ln
                          in if \<not> test False definitionContext restOfLine
                             then (addUse \<lparr>varName = v,
                                     n_kind = (if isState then KindState
                                               else (case DAList.lookup (definitions g) v of
                                                       Some (d # ds) \<Rightarrow> n_kind d
                                                     | _ \<Rightarrow> KindLocal)),
                                     n_line = l, n_column = column, isDefinition = False,
                                     n_typeName = None, defiTag = inferDefiTag v None\<rparr> g, seen1)
                             else (g, seen1)
                     else (g, seen1))
         ms (g, []))) = Inr g'"
    unfolding extractUses_def by auto
  have "graphOk (fst (fold (\<lambda>m (g, seenOnLine).
          let v = groupOrEmpty 1 m; column = index ln m
          in if v \<in> set skipWordsUses \<or> v \<in> set seenOnLine then (g, seenOnLine)
             else let seen1 = seenOnLine @ [v];
                      isDefined = (DAList.lookup (definitions g) v \<noteq> None);
                      isState = (v \<in> set sv)
                  in if isDefined \<or> isState
                     then let restOfLine = drop (nat column + length v) ln
                          in if \<not> test False definitionContext restOfLine
                             then (addUse \<lparr>varName = v,
                                     n_kind = (if isState then KindState
                                               else (case DAList.lookup (definitions g) v of
                                                       Some (d # ds) \<Rightarrow> n_kind d
                                                     | _ \<Rightarrow> KindLocal)),
                                     n_line = l, n_column = column, isDefinition = False,
                                     n_typeName = None, defiTag = inferDefiTag v None\<rparr> g, seen1)
                             else (g, seen1)
                     else (g, seen1))
         ms (g, [])))"
    by (rule fold_invariant[where Q = "\<lambda>p. graphOk (fst p)"])
       (auto simp: assms(2) Let_def intro!: addUse_ok)
  then show ?thesis using extractSpecialGlobals_ok[OF r] by simp
qed

lemma sinkStep_ok:
  assumes "(if c then andThen (extractVariablesFromExpression e) (\<lambda>vars. Inr (addSink (mk vars) g))
            else Inr g) = Inr g'" and "graphOk g"
  shows "graphOk g'"
  using assms by (auto split: if_splits intro: addSink_ok)

lemma extractSinks_ok:
  assumes "extractSinks newRegExp ln l sv g = Inr g'" and "graphOk g"
  shows "graphOk g'"
proof -
  from assms(1) obtain g1 g2 g3 where
    s1: "(if list_ex (\<lambda>pattern. test False pattern ln) EXTERNAL_CALL_PATTERNS
              then andThen (extractVariablesFromExpression ln) (\<lambda>vars.
                   Inr (addSink \<lparr>s_kind = SinkExternalCall, s_line = l, s_column = 0,
                                 description = trim ln, inputVars = vars,
                                 callTarget = (case search False callTargetPattern (start ln) of
                                                 None \<Rightarrow> None | Some m \<Rightarrow> group 1 m)\<rparr> g))
              else Inr g) = Inr g1"
    and s2: "(case search False returnPattern (start ln) of
                None \<Rightarrow> Inr g1
              | Some returnMatch \<Rightarrow>
                  andThen (extractVariablesFromExpression (groupOrEmpty 1 returnMatch)) (\<lambda>vars.
                  Inr (addSink \<lparr>s_kind = SinkReturn, s_line = l,
                                s_column = indexOf ln ''return'',
                                description = ''return '' @ trim (groupOrEmpty 1 returnMatch),
                                inputVars = vars, callTarget = None\<rparr> g1))) = Inr g2"
    and s3: "(case search False emitPattern (start ln) of
                None \<Rightarrow> Inr g2
              | Some emitMatch \<Rightarrow>
                  andThen (extractVariablesFromExpression (groupOrEmpty 2 emitMatch)) (\<lambda>vars.
                  Inr (addSink \<lparr>s_kind = SinkEventEmit, s_line = l,
                                s_column = indexOf ln ''emit'',
                                description = ''emit '' @ groupOrEmpty 1 emitMatch @ ''(...)'',
                                inputVars = vars, callTarget = None\<rparr> g2))) = Inr g3"
    and s4: "foldResult (\<lambda>stateVar g.
        case newDirectAssign newRegExp stateVar of
          None \<Rightarrow> Inl SyntaxError
        | Some directAssignTest \<Rightarrow>
          andThen (if directAssignTest ln
                   then andThen (extractVariablesFromExpression ln) (\<lambda>vars.
                        Inr (addSink \<lparr>s_kind = SinkStateWrite, s_line = l,
                                      s_column = indexOf ln stateVar,
                                      description = stateVar @ '' = ...'',
                                      inputVars = filter (\<lambda>v. v \<noteq> stateVar) vars,
                                      callTarget = None\<rparr> g))
                   else Inr g) (\<lambda>g4.
          case newMappingWrite newRegExp stateVar of
            None \<Rightarrow> Inl SyntaxError
          | Some mappingWriteTest \<Rightarrow>
            if mappingWriteTest ln
            then andThen (extractVariablesFromExpression ln) (\<lambda>vars.
                 Inr (addSink \<lparr>s_kind = SinkStateWrite, s_line = l,
                               s_column = indexOf ln stateVar,
                               description = stateVar @ ''[...] = ...'',
                               inputVars = filter (\<lambda>v. v \<noteq> stateVar) vars,
                               callTarget = None\<rparr> g4))
            else Inr g4))
       sv g3 = Inr g'"
    unfolding extractSinks_def by auto
  have ok1: "graphOk g1" using s1 assms(2) by (auto split: if_splits intro: addSink_ok)
  have ok2: "graphOk g2" using s2 ok1 by (auto split: option.splits intro: addSink_ok)
  have ok3: "graphOk g3" using s3 ok2 by (auto split: option.splits intro: addSink_ok)
  show ?thesis
    by (rule foldResult_invariant[where Q = graphOk, OF s4 ok3])
       (auto split: if_splits option.splits intro: addSink_ok)
qed

lemma analyzeLine_ok:
  "analyzeLine newRegExp sv l ln g = Inr g' \<Longrightarrow> graphOk g \<Longrightarrow> graphOk g'"
  unfolding analyzeLine_def
  by (auto dest: extractLocalDeclarations_ok extractAssignments_ok extractUses_ok extractSinks_ok)

lemma analyze_split:
  assumes "analyze newRegExp fi sv = Inr g"
  obtains g0 where "graphOk g0"
    and "g = g0\<lparr>edges := buildFlowEdges (edges g0) (definitions g0) (uses g0)\<rparr>"
proof -
  from assms obtain g0 where
    f: "foldResult (\<lambda>(i, ln) g. analyzeLine newRegExp sv (startLine fi + i) ln g)
          (zip [0..<length (splitOn CHR 0x0A (fullSource fi))] (splitOn CHR 0x0A (fullSource fi)))
          (extractParameterDefinitions (parameters fi) (startLine fi) emptyGraph) = Inr g0"
    and g: "g = g0\<lparr>edges := buildFlowEdges (edges g0) (definitions g0) (uses g0)\<rparr>"
    unfolding analyze_def Let_def by auto
  have "graphOk g0"
    by (rule foldResult_invariant[where Q = graphOk, OF f])
       (auto intro: extractParameterDefinitions_ok emptyGraph_ok dest: analyzeLine_ok)
  then show ?thesis using g that by blast
qed


text \<open>
  Claim C10. In a graph returned by \<open>analyze\<close>, for any function, any field names and any
  constructor, every node of a list of the \<open>definitions\<close> index has the definition flag set
  and every node of a list of the \<open>uses\<close> index has it cleared.
\<close>

theorem index_flags:
  assumes "analyze newRegExp fi stateVariables = Inr g"
  shows "(\<forall>k ns n. DAList.lookup (definitions g) k = Some ns \<longrightarrow> n \<in> set ns \<longrightarrow> isDefinition n)
       \<and> (\<forall>k ns n. DAList.lookup (uses g) k = Some ns \<longrightarrow> n \<in> set ns \<longrightarrow> \<not> isDefinition n)"
proof -
  from assms obtain g0 where "graphOk g0"
    and "g = g0\<lparr>edges := buildFlowEdges (edges g0) (definitions g0) (uses g0)\<rparr>"
    by (rule analyze_split)
  then show ?thesis by (auto simp: graphOk_def indexOk_def)
qed


text \<open>The graph of the example function, for every constructor; \<^verbatim>\<open>$owner\<close> is a second field,
  which the function does not mention.\<close>

lemma analyze_exampleFunction: "analyze newRegExp exampleFunction [''balanceOf_''] = Inr exampleGraph"
  by code_simp

lemma analyze_exampleFunction_fields:
  "analyze newRegExp exampleFunction [''balanceOf_'', ''$owner''] = Inr exampleGraph"
  by code_simp

theorem index_flags_witness:
  "(\<forall>newRegExp. analyze newRegExp exampleFunction [''balanceOf_'', ''$owner''] = Inr exampleGraph)
   \<and> DAList.lookup (definitions exampleGraph) ''amount_'' = Some [amountParam, amountDecl]
   \<and> isDefinition amountParam \<and> isDefinition amountDecl
   \<and> DAList.lookup (uses exampleGraph) ''msg.sender'' = Some [senderUse]
   \<and> \<not> isDefinition senderUse"
proof -
  note h = analyze_exampleFunction_fields
  have d: "DAList.lookup (definitions exampleGraph) ''amount_'' = Some [amountParam, amountDecl]"
    by (simp add: exampleGraph_def)
  have u: "DAList.lookup (uses exampleGraph) ''msg.sender'' = Some [senderUse]"
    by (simp add: exampleGraph_def)
  from index_flags[OF h] d have "isDefinition amountParam" "isDefinition amountDecl" by auto
  moreover from index_flags[OF h] u have "\<not> isDefinition senderUse" by auto
  ultimately show ?thesis using h d u by simp
qed


section \<open>The analyzer returns a graph\<close>

text \<open>None of the expressions that the analyzer runs in a loop matches the empty text, so
  none of its loops diverges: for field names of word characters \<open>analyze\<close> returns a
  graph.\<close>

lemma rmatch_consumes:
  "st' \<in> set (rmatch ic r st) \<Longrightarrow> remaining st' + minLen r \<le> remaining st"
proof (induction ic r st arbitrary: st' rule: rmatch.induct)
  case (1 ic neg rs p rest caps)
  then show ?case by (cases rest) (auto simp: rmatch.simps remaining_def split: if_splits)
next
  case (2 ic st)
  then show ?case by (simp add: rmatch.simps)
next
  case (3 ic a b st)
  from "3.prems" obtain x where x: "x \<in> set (rmatch ic a st)" and y: "st' \<in> set (rmatch ic b x)"
    by (auto simp: rmatch.simps(3))
  from "3.IH"(1)[OF x] "3.IH"(2)[OF x y] show ?case by simp
next
  case (4 ic a b st)
  from "4.prems" have "st' \<in> set (rmatch ic a st) \<or> st' \<in> set (rmatch ic b st)"
    by (simp add: rmatch.simps(4))
  then show ?case using "4.IH"(1)[of st'] "4.IH"(2)[of st'] by auto
next
  case (5 ic a p rest caps)
  show ?case
  proof (cases "st' = (p, rest, caps)")
    case True
    then show ?thesis by simp
  next
    case False
    with "5.prems" obtain x where
      x: "x \<in> set (filter (\<lambda>(p1, rest1, caps1). length rest1 < length rest) (rmatch ic a (p, rest, caps)))"
      and y: "st' \<in> set (rmatch ic (Star a) x)"
      by (subst (asm) rmatch.simps(5)) auto
    have lt: "remaining x < remaining (p, rest, caps)"
      using x by (auto simp: remaining_def)
    from "5.IH"(2)[OF x y] lt show ?thesis by simp
  qed
next
  case (6 ic n a p rest caps)
  from "6.prems" obtain x where x: "x \<in> set (rmatch ic a (p, rest, caps))"
    and r: "remaining st' = remaining x"
    by (subst (asm) rmatch.simps(6)) (auto simp: remaining_def)
  from "6.IH"[OF x] r show ?case by simp
next
  case (7 ic p rest caps)
  then show ?case by (simp add: rmatch.simps split: if_splits)
next
  case (8 ic p rest caps)
  then show ?case by (simp add: rmatch.simps split: if_splits)
next
  case (9 ic p rest caps)
  then show ?case by (simp add: rmatch.simps split: if_splits)
next
  case (10 ic a st)
  then show ?case by (simp add: rmatch.simps(10) split: if_splits)
qed

lemma search_consumes:
  "search ic r st = Some (b, e) \<Longrightarrow> remaining e + minLen r \<le> remaining b"
proof (induction ic r st rule: search.induct)
  case (1 ic r p rest caps)
  show ?case
  proof (cases "rmatch ic r (p, rest, [])")
    case Nil
    then show ?thesis using 1 by (cases rest) auto
  next
    case (Cons m ms)
    then have "m \<in> set (rmatch ic r (p, rest, []))" by simp
    from rmatch_consumes[OF this] show ?thesis using 1 Cons by auto
  qed
qed

lemma execLoop_returns:
  "0 < minLen r \<Longrightarrow> \<exists>ms. execLoop ic r st = Inr ms"
proof (induction ic r st rule: execLoop.induct)
  case (1 ic r st)
  show ?case
  proof (cases "search ic r st")
    case None
    then show ?thesis by (simp add: execLoop.simps[of ic r st])
  next
    case (Some m)
    obtain b e where m: "m = (b, e)" by (cases m)
    from search_consumes[of ic r st b e] Some m "1.prems" have ne: "remaining e \<noteq> remaining b" by simp
    from "1.IH"[OF Some m[symmetric] ne "1.prems"] obtain ms where "execLoop ic r e = Inr ms" by blast
    then show ?thesis using Some m ne by (simp add: execLoop.simps[of ic r st])
  qed
qed

lemma execAll_returns: "0 < minLen r \<Longrightarrow> \<exists>ms. execAll ic r s = Inr ms"
  by (simp add: execAll_def execLoop_returns)

lemma minLen_lit [simp]: "minLen (lit s) = length s"
  by (induction s) auto

lemma minLen_patterns:
  "0 < minLen identifierPattern" "0 < minLen declPattern" "0 < minLen assignPattern"
  "0 < minLen mappingWritePattern"
  by code_simp+

lemma extractVariablesFromExpression_returns:
  "\<exists>vars. extractVariablesFromExpression e = Inr vars"
  using execAll_returns[OF minLen_patterns(1), of False e]
  by (auto simp: extractVariablesFromExpression_def)

lemma foldResult_returns:
  "(\<And>x b. x \<in> set xs \<Longrightarrow> \<exists>b'. f x b = Inr b') \<Longrightarrow> \<exists>b'. foldResult f xs b = Inr b'"
proof (induction xs arbitrary: b)
  case Nil
  show ?case by simp
next
  case (Cons x xs)
  from Cons.prems[of x b] obtain b1 where b1: "f x b = Inr b1" by auto
  from Cons.IH[of b1] Cons.prems obtain b' where "foldResult f xs b1 = Inr b'" by auto
  then show ?case using b1 by simp
qed

lemma andThen_returns:
  "\<exists>a. x = Inr a \<Longrightarrow> (\<And>a. \<exists>b. f a = Inr b) \<Longrightarrow> \<exists>b. andThen x f = Inr b"
  by (auto simp: andThen_def)

lemma extractLocalDeclarations_returns:
  "\<exists>g'. extractLocalDeclarations ln l sv g = Inr g'"
  using execAll_returns[OF minLen_patterns(2), of False ln]
  by (auto simp: extractLocalDeclarations_def Let_def split: option.splits)

lemma extractAssignments_returns:
  "\<exists>g'. extractAssignments ln l sv g = Inr g'"
  unfolding extractAssignments_def
  by (intro andThen_returns foldResult_returns execAll_returns minLen_patterns)
     (auto simp: Let_def intro!: andThen_returns extractVariablesFromExpression_returns)

lemma extractSpecialGlobals_returns:
  "\<exists>g'. extractSpecialGlobals ln l g = Inr g'"
  unfolding extractSpecialGlobals_def
  by (rule foldResult_returns)
     (auto simp: specialGlobals_def intro!: andThen_returns execAll_returns)

lemma extractUses_returns:
  "\<exists>g'. extractUses ln l sv g = Inr g'"
  unfolding extractUses_def
  by (intro andThen_returns execAll_returns minLen_patterns extractSpecialGlobals_returns)

lemma extractSinks_returns:
  assumes "list_all (\<lambda>v. newDirectAssign newRegExp v \<noteq> None \<and> newMappingWrite newRegExp v \<noteq> None) sv"
  shows "\<exists>g'. extractSinks newRegExp ln l sv g = Inr g'"
proof -
  obtain vars where v: "extractVariablesFromExpression ln = Inr vars"
    using extractVariablesFromExpression_returns by blast
  have w: "\<And>x. x \<in> set sv \<Longrightarrow>
      (\<exists>t. newDirectAssign newRegExp x = Some t) \<and> (\<exists>t. newMappingWrite newRegExp x = Some t)"
    using assms by (auto simp: list_all_iff)
  show ?thesis
    unfolding extractSinks_def
    by (intro andThen_returns foldResult_returns)
       (auto simp: v split: option.splits dest!: w
             intro!: andThen_returns extractVariablesFromExpression_returns)
qed

lemma analyzeLine_returns:
  "list_all (\<lambda>v. newDirectAssign newRegExp v \<noteq> None \<and> newMappingWrite newRegExp v \<noteq> None) sv
   \<Longrightarrow> \<exists>g'. analyzeLine newRegExp sv l ln g = Inr g'"
  unfolding analyzeLine_def
  by (intro andThen_returns extractLocalDeclarations_returns extractAssignments_returns
        extractUses_returns extractSinks_returns)

text \<open>For every function and every list of field names from each of which the constructor
  builds the two expressions, \<open>analyze\<close> returns a graph; so it does for every list of names
  of identifiers, whatever the constructor.\<close>

lemma analyze_returns:
  "list_all (\<lambda>v. newDirectAssign newRegExp v \<noteq> None \<and> newMappingWrite newRegExp v \<noteq> None) stateVariables
   \<Longrightarrow> \<exists>g. analyze newRegExp fi stateVariables = Inr g"
  unfolding analyze_def Let_def
  by (intro andThen_returns foldResult_returns) (auto intro: analyzeLine_returns)

lemma analyze_returns_identifiers:
  "list_all isIdentifierName stateVariables \<Longrightarrow> \<exists>g. analyze newRegExp fi stateVariables = Inr g"
  by (rule analyze_returns) (auto simp: list_all_iff newDirectAssign_def newMappingWrite_def)



section \<open>Use edges\<close>

lemma mostRecentDef_snoc:
  "mostRecentDef u (ds @ [x]) =
     (if n_line x \<le> n_line u
      then (case mostRecentDef u ds of None \<Rightarrow> Some x
            | Some d \<Rightarrow> if n_line x > n_line d then Some x else Some d)
      else mostRecentDef u ds)"
  by (simp add: mostRecentDef_def split: option.splits)

lemma mostRecentDef_None: "mostRecentDef u ds = None \<longleftrightarrow> (\<forall>d \<in> set ds. \<not> n_line d \<le> n_line u)"
proof (induction ds rule: rev_induct)
  case Nil
  show ?case by (simp add: mostRecentDef_def)
next
  case (snoc x xs)
  then show ?case by (auto simp: mostRecentDef_snoc split: option.splits)
qed

lemma mostRecentDef_Some:
  "mostRecentDef u ds = Some d \<Longrightarrow>
   d \<in> set ds \<and> n_line d \<le> n_line u \<and> (\<forall>d' \<in> set ds. n_line d' \<le> n_line u \<longrightarrow> n_line d' \<le> n_line d)"
proof (induction ds arbitrary: d rule: rev_induct)
  case Nil
  then show ?case by (simp add: mostRecentDef_def)
next
  case (snoc x xs)
  show ?case
  proof (cases "n_line x \<le> n_line u")
    case False
    then show ?thesis using snoc by (auto simp: mostRecentDef_snoc)
  next
    case True
    show ?thesis
    proof (cases "mostRecentDef u xs")
      case None
      then have "\<forall>d \<in> set xs. \<not> n_line d \<le> n_line u" by (simp add: mostRecentDef_None)
      then show ?thesis using snoc.prems True None
        by (auto simp: mostRecentDef_snoc)
    next
      case (Some d0)
      from snoc.IH[OF Some] show ?thesis using snoc.prems True Some
        by (auto simp: mostRecentDef_snoc split: if_splits)
    qed
  qed
qed

lemma flow_inner:
  "e \<in> set (fold (\<lambda>useNode es.
              case mostRecentDef useNode ds of
                None \<Rightarrow> es
              | Some d \<Rightarrow> es @ [\<lparr>e_from = d, e_to = useNode, edgeType = EdgeUse, transformation = None\<rparr>])
            us es)
   \<longleftrightarrow> e \<in> set es \<or> (\<exists>d u. e = useEdge d u \<and> u \<in> set us \<and> mostRecentDef u ds = Some d)"
proof (induction us arbitrary: es)
  case Nil
  show ?case by simp
next
  case (Cons u us)
  show ?case
  proof (cases "mostRecentDef u ds")
    case None
    then show ?thesis by (auto simp: Cons.IH)
  next
    case (Some d)
    then show ?thesis by (auto simp: Cons.IH useEdge_def[symmetric])
  qed
qed

lemma flow_outer:
  "e \<in> set (fold (\<lambda>(v, useNodes) es.
             case DAList.lookup defs v of
               None \<Rightarrow> es
             | Some defNodes \<Rightarrow>
                 if defNodes = [] then es
                 else fold (\<lambda>useNode es.
                              case mostRecentDef useNode defNodes of
                                None \<Rightarrow> es
                              | Some d \<Rightarrow> es @ [\<lparr>e_from = d, e_to = useNode, edgeType = EdgeUse,
                                                  transformation = None\<rparr>])
                           useNodes es)
          xs es)
   \<longleftrightarrow> e \<in> set es \<or> (\<exists>(v, useNodes) \<in> set xs. \<exists>ds d u. e = useEdge d u \<and>
        DAList.lookup defs v = Some ds \<and> u \<in> set useNodes \<and> mostRecentDef u ds = Some d)"
proof (induction xs arbitrary: es)
  case Nil
  show ?case by simp
next
  case (Cons x xs)
  obtain v useNodes where x: "x = (v, useNodes)" by (cases x)
  show ?case
  proof (cases "DAList.lookup defs v")
    case None
    then show ?thesis unfolding x by (simp add: Cons.IH)
  next
    case (Some ds)
    show ?thesis
    proof (cases "ds = []")
      case True
      have "\<And>u. mostRecentDef u ds = None" using True by (simp add: mostRecentDef_def)
      then show ?thesis unfolding x using Some True by (simp add: Cons.IH)
    next
      case False
      then show ?thesis unfolding x using Some by (simp add: Cons.IH flow_inner)
    qed
  qed
qed

lemma in_entries_iff: "(k, v) \<in> set (DAList.impl_of m) \<longleftrightarrow> DAList.lookup m k = Some v"
  by transfer simp

lemma buildFlowEdges_set:
  "e \<in> set (buildFlowEdges es defs us)
   \<longleftrightarrow> e \<in> set es \<or> (\<exists>v useNodes ds d u. e = useEdge d u \<and>
        DAList.lookup us v = Some useNodes \<and> DAList.lookup defs v = Some ds \<and> u \<in> set useNodes
        \<and> mostRecentDef u ds = Some d)"
proof -
  have "(\<exists>(v, useNodes) \<in> set (DAList.impl_of us). \<exists>ds d u. e = useEdge d u \<and>
        DAList.lookup defs v = Some ds \<and> u \<in> set useNodes \<and> mostRecentDef u ds = Some d)
    \<longleftrightarrow> (\<exists>v useNodes ds d u. e = useEdge d u \<and>
        DAList.lookup us v = Some useNodes \<and> DAList.lookup defs v = Some ds \<and> u \<in> set useNodes
        \<and> mostRecentDef u ds = Some d)"
    unfolding in_entries_iff[symmetric] by blast
  then show ?thesis unfolding buildFlowEdges_def flow_outer by simp
qed


text \<open>
  Claim C7, as stated, fails: in the graph of the example function the use of \<open>amount_\<close> is
  linked to the parameter definition of \<open>amount_\<close>, which is on the line of the use.
\<close>

theorem same_line_definition_linked:
  "(\<forall>newRegExp. analyze newRegExp exampleFunction [''balanceOf_''] = Inr exampleGraph)
   \<and> useEdge amountParam amountUse \<in> set (edges exampleGraph)
   \<and> edgeType (useEdge amountParam amountUse) = EdgeUse
   \<and> e_from (useEdge amountParam amountUse) = amountParam
   \<and> e_to (useEdge amountParam amountUse) = amountUse
   \<and> isDefinition amountParam \<and> \<not> isDefinition amountUse
   \<and> varName amountParam = varName amountUse
   \<and> n_line amountParam = n_line amountUse"
  using analyze_exampleFunction
  by (simp add: exampleGraph_def useEdge_def amountParam_def amountUse_def)

text \<open>
  Claim C7, amended. In a graph returned by \<open>analyze\<close>, for any function, any field names and
  any constructor, every use edge leads from a node of
  the definitions index to a node of the uses index of the same name; the line of the
  definition is at most the line of the use, and no definition of that name at or before the
  line of the use has a larger line. A definition on the line of the use qualifies. A use
  without a definition of its name at or before its line has no use edge.
\<close>

theorem use_edges_most_recent:
  assumes "analyze newRegExp fi stateVariables = Inr g"
  shows "(\<forall>e \<in> set (edges g). edgeType e = EdgeUse \<longrightarrow>
            (\<exists>ds us. DAList.lookup (definitions g) (varName (e_to e)) = Some ds
               \<and> DAList.lookup (uses g) (varName (e_to e)) = Some us
               \<and> e_to e \<in> set us \<and> e_from e \<in> set ds
               \<and> varName (e_from e) = varName (e_to e)
               \<and> n_line (e_from e) \<le> n_line (e_to e)
               \<and> (\<forall>d \<in> set ds. n_line d \<le> n_line (e_to e) \<longrightarrow> n_line d \<le> n_line (e_from e))))
       \<and> (\<forall>v us u. DAList.lookup (uses g) v = Some us \<longrightarrow> u \<in> set us \<longrightarrow>
            (\<forall>ds d. DAList.lookup (definitions g) v = Some ds \<longrightarrow> d \<in> set ds \<longrightarrow> \<not> n_line d \<le> n_line u) \<longrightarrow>
            \<not> (\<exists>e \<in> set (edges g). edgeType e = EdgeUse \<and> e_to e = u))"
proof -
  from assms obtain g0 where ok: "graphOk g0"
    and g: "g = g0\<lparr>edges := buildFlowEdges (edges g0) (definitions g0) (uses g0)\<rparr>"
    by (rule analyze_split)
  have defs: "definitions g = definitions g0" and us: "uses g = uses g0" using g by simp_all
  have char: "\<And>e. e \<in> set (edges g) \<Longrightarrow> edgeType e = EdgeUse \<Longrightarrow>
      \<exists>v useNodes ds. DAList.lookup (uses g) v = Some useNodes \<and> DAList.lookup (definitions g) v = Some ds
        \<and> e_to e \<in> set useNodes \<and> mostRecentDef (e_to e) ds = Some (e_from e)"
  proof -
    fix e assume e: "e \<in> set (edges g)" and t: "edgeType e = EdgeUse"
    from e have "e \<in> set (edges g0) \<or> (\<exists>v useNodes ds d u. e = useEdge d u \<and>
        DAList.lookup (uses g0) v = Some useNodes \<and> DAList.lookup (definitions g0) v = Some ds \<and> u \<in> set useNodes
        \<and> mostRecentDef u ds = Some d)"
      unfolding g by (auto simp: buildFlowEdges_set)
    moreover have "e \<notin> set (edges g0)" using ok t by (auto simp: graphOk_def)
    ultimately obtain v useNodes ds d u where "e = useEdge d u"
        "DAList.lookup (uses g0) v = Some useNodes" "DAList.lookup (definitions g0) v = Some ds"
        "u \<in> set useNodes" "mostRecentDef u ds = Some d"
      by blast
    then show "\<exists>v useNodes ds. DAList.lookup (uses g) v = Some useNodes \<and> DAList.lookup (definitions g) v = Some ds
        \<and> e_to e \<in> set useNodes \<and> mostRecentDef (e_to e) ds = Some (e_from e)"
      unfolding defs us
      by (intro exI[of _ v] exI[of _ useNodes] exI[of _ ds]) (simp add: useEdge_def)
  qed
  have part1: "\<forall>e \<in> set (edges g). edgeType e = EdgeUse \<longrightarrow>
            (\<exists>ds us. DAList.lookup (definitions g) (varName (e_to e)) = Some ds
               \<and> DAList.lookup (uses g) (varName (e_to e)) = Some us
               \<and> e_to e \<in> set us \<and> e_from e \<in> set ds
               \<and> varName (e_from e) = varName (e_to e)
               \<and> n_line (e_from e) \<le> n_line (e_to e)
               \<and> (\<forall>d \<in> set ds. n_line d \<le> n_line (e_to e) \<longrightarrow> n_line d \<le> n_line (e_from e)))"
  proof (intro ballI impI)
    fix e assume e: "e \<in> set (edges g)" and t: "edgeType e = EdgeUse"
    from char[OF e t] obtain v useNodes ds where
      lu: "DAList.lookup (uses g) v = Some useNodes" and ld: "DAList.lookup (definitions g) v = Some ds"
      and mem: "e_to e \<in> set useNodes" and mr: "mostRecentDef (e_to e) ds = Some (e_from e)"
      by blast
    have vu: "varName (e_to e) = v" using ok lu mem unfolding us graphOk_def indexOk_def by blast
    from mostRecentDef_Some[OF mr] have fd: "e_from e \<in> set ds"
      and le: "n_line (e_from e) \<le> n_line (e_to e)"
      and mx: "\<forall>d' \<in> set ds. n_line d' \<le> n_line (e_to e) \<longrightarrow> n_line d' \<le> n_line (e_from e)"
      by simp_all
    have vd: "varName (e_from e) = v" using ok ld fd unfolding defs graphOk_def indexOk_def by blast
    show "\<exists>ds us. DAList.lookup (definitions g) (varName (e_to e)) = Some ds
               \<and> DAList.lookup (uses g) (varName (e_to e)) = Some us
               \<and> e_to e \<in> set us \<and> e_from e \<in> set ds
               \<and> varName (e_from e) = varName (e_to e)
               \<and> n_line (e_from e) \<le> n_line (e_to e)
               \<and> (\<forall>d \<in> set ds. n_line d \<le> n_line (e_to e) \<longrightarrow> n_line d \<le> n_line (e_from e))"
      using lu ld mem fd le mx vu vd by auto
  qed
  have part2: "\<forall>v us u. DAList.lookup (uses g) v = Some us \<longrightarrow> u \<in> set us \<longrightarrow>
            (\<forall>ds d. DAList.lookup (definitions g) v = Some ds \<longrightarrow> d \<in> set ds \<longrightarrow> \<not> n_line d \<le> n_line u) \<longrightarrow>
            \<not> (\<exists>e \<in> set (edges g). edgeType e = EdgeUse \<and> e_to e = u)"
  proof (intro allI impI notI)
    fix v usl u
    assume lu: "DAList.lookup (uses g) v = Some usl" and mem: "u \<in> set usl"
      and none: "\<forall>ds d. DAList.lookup (definitions g) v = Some ds \<longrightarrow> d \<in> set ds \<longrightarrow> \<not> n_line d \<le> n_line u"
      and ex: "\<exists>e \<in> set (edges g). edgeType e = EdgeUse \<and> e_to e = u"
    from ex obtain e where e: "e \<in> set (edges g)" and t: "edgeType e = EdgeUse" and eu: "e_to e = u" by blast
    from char[OF e t] obtain v' useNodes ds where
      lu': "DAList.lookup (uses g) v' = Some useNodes" and ld: "DAList.lookup (definitions g) v' = Some ds"
      and mem': "e_to e \<in> set useNodes" and mr: "mostRecentDef (e_to e) ds = Some (e_from e)"
      by blast
    have "varName u = v" using ok lu mem unfolding us graphOk_def indexOk_def by blast
    moreover have "varName u = v'" using ok lu' mem' eu unfolding us graphOk_def indexOk_def by blast
    ultimately have vv: "v' = v" by simp
    from mostRecentDef_Some[OF mr] have "e_from e \<in> set ds" "n_line (e_from e) \<le> n_line u"
      using eu by simp_all
    then show False using none ld vv by blast
  qed
  show ?thesis using part1 part2 by blast
qed


theorem use_edges_most_recent_witness:
  "(\<forall>newRegExp. analyze newRegExp exampleFunction [''balanceOf_'', ''$owner''] = Inr exampleGraph)
   \<and> useEdge amountParam amountUse \<in> set (edges exampleGraph)
   \<and> (\<exists>ds us. DAList.lookup (definitions exampleGraph) ''amount_'' = Some ds
        \<and> DAList.lookup (uses exampleGraph) ''amount_'' = Some us
        \<and> amountUse \<in> set us \<and> amountParam \<in> set ds
        \<and> n_line amountParam \<le> n_line amountUse)
   \<and> DAList.lookup (uses exampleGraph) ''balanceOf_'' = Some [balanceUse]
   \<and> DAList.lookup (definitions exampleGraph) ''balanceOf_'' = None
   \<and> filter (\<lambda>e. edgeType e = EdgeUse \<and> e_to e = balanceUse) (edges exampleGraph) = []"
proof -
  note h = analyze_exampleFunction_fields
  note t = use_edges_most_recent[OF h]
  have e: "useEdge amountParam amountUse \<in> set (edges exampleGraph)"
    by (simp add: exampleGraph_def)
  have ty: "edgeType (useEdge amountParam amountUse) = EdgeUse" by (simp add: useEdge_def)
  have p1: "\<exists>ds us. DAList.lookup (definitions exampleGraph) ''amount_'' = Some ds
        \<and> DAList.lookup (uses exampleGraph) ''amount_'' = Some us
        \<and> amountUse \<in> set us \<and> amountParam \<in> set ds
        \<and> n_line amountParam \<le> n_line amountUse"
    using conjunct1[OF t, rule_format, OF e ty]
    by (simp add: useEdge_def amountUse_def) blast
  have lu: "DAList.lookup (uses exampleGraph) ''balanceOf_'' = Some [balanceUse]"
    by (simp add: exampleGraph_def)
  have ld: "DAList.lookup (definitions exampleGraph) ''balanceOf_'' = None"
    by (simp add: exampleGraph_def)
  have "\<not> (\<exists>e \<in> set (edges exampleGraph). edgeType e = EdgeUse \<and> e_to e = balanceUse)"
    using conjunct2[OF t, rule_format, OF lu] ld by simp
  then have p2: "filter (\<lambda>e. edgeType e = EdgeUse \<and> e_to e = balanceUse) (edges exampleGraph) = []"
    by (simp add: filter_empty_conv)
  show ?thesis using h e p1 lu ld p2 by simp
qed


section \<open>The example function\<close>

text \<open>
  Claim C8. For \<^verbatim>\<open>function f(uint256 amount_) public { balanceOf_[msg.sender] = amount_; }\<close>
  and the field \<^verbatim>\<open>balanceOf_\<close>, \<open>analyze\<close> returns a graph with exactly one parameter
  definition node for \<^verbatim>\<open>amount_\<close>, tagged \<open>TokenAmount\<close>; exactly one use node for
  \<^verbatim>\<open>amount_\<close>; exactly one use node for \<^verbatim>\<open>msg.sender\<close>, tagged \<open>MsgSender\<close>; and exactly
  one state-write sink, on the line of the assignment, with \<^verbatim>\<open>amount_\<close> among its input
  variables. (The declaration pattern matches \<^verbatim>\<open>uint256 amount_)\<close> in the parameter list as
  well, which gives \<^verbatim>\<open>amount_\<close> a second definition node, of kind \<open>KindLocal\<close>.)
\<close>

theorem example_graph_nodes_and_sink:
  "\<exists>g. analyze newRegExp exampleFunction [''balanceOf_''] = Inr g
     \<and> filter (\<lambda>n. isDefinition n \<and> n_kind n = KindParameter \<and> varName n = ''amount_'') (nodes g)
         = [amountParam]
     \<and> defiTag amountParam = Some TokenAmount
     \<and> filter (\<lambda>n. \<not> isDefinition n \<and> varName n = ''amount_'') (nodes g) = [amountUse]
     \<and> DAList.lookup (uses g) ''amount_'' = Some [amountUse]
     \<and> filter (\<lambda>n. \<not> isDefinition n \<and> varName n = ''msg.sender'') (nodes g) = [senderUse]
     \<and> defiTag senderUse = Some MsgSender
     \<and> DAList.lookup (uses g) ''msg.sender'' = Some [senderUse]
     \<and> filter (\<lambda>s. s_kind s = SinkStateWrite) (sinks g) = [stateWriteSink]
     \<and> s_line stateWriteSink = startLine exampleFunction
     \<and> ''amount_'' \<in> set (inputVars stateWriteSink)"
proof (intro exI conjI)
  show "analyze newRegExp exampleFunction [''balanceOf_''] = Inr exampleGraph"
    by (rule analyze_exampleFunction)
qed (simp_all add: exampleGraph_def amountParam_def amountDecl_def balanceWrite_def amountUse_def
       balanceUse_def senderUse_def stateWriteSink_def exampleFunction_def)

end
